theory Spec2Isabelle
  imports Complex_Main "HOL-Library.Log_Nat"
begin

section \<open>JavaScript numbers\<close>

text \<open>
  Function \<open>calculateRealTimeRisk\<close> (\<open>server/storage.ts\<close>, lines 148 to 210) computes with
  JavaScript numbers, that is IEEE 754 binary64 values: the finite values, which are
  rational numbers, the two infinities and NaN. Every arithmetic operation returns the
  exact result rounded to the nearest representable value, ties to the even significand,
  and a result that rounds to \<open>2 ^ 1024\<close> or beyond in magnitude is infinite. The model
  writes the rounding out. The sign of zero is not represented: the code never divides
  by a computed value, which is the only place where it would show.
\<close>

datatype number = Fin rat | PosInf | NegInf | NaN

definition pow2 :: "int \<Rightarrow> rat" where
  "pow2 e = 2 powi e"

text \<open>Nearest integer, a tie going to the even neighbour.\<close>

definition round_even :: "rat \<Rightarrow> int" where
  "round_even y =
     (let n = \<lfloor>y\<rfloor>; r = y - of_int n
      in if r < 1/2 then n else if 1/2 < r then n + 1 else if even n then n else n + 1)"

text \<open>The binary exponent \<open>e\<close> of a non-zero value: \<open>2 ^ e \<le> \<bar>x\<bar> < 2 ^ (e + 1)\<close>.\<close>

definition expo :: "rat \<Rightarrow> int" where
  "expo x =
     (let a = \<bar>x\<bar>
      in if 1 \<le> a then bitlen \<lfloor>a\<rfloor> - 1
         else (let n = bitlen \<lfloor>1 / a\<rfloor> in if a * pow2 (n - 1) = 1 then 1 - n else - n))"

text \<open>
  Rounding to 53 significant bits; below \<open>2 ^ (-1022)\<close> the grid is that of the
  subnormal numbers, with spacing \<open>2 ^ (-1074)\<close>.
\<close>

definition fl :: "rat \<Rightarrow> rat" where
  "fl x =
     (if x = 0 then 0
      else (let u = pow2 (max (expo x) (- 1022) - 52) in of_int (round_even (x / u)) * u))"

text \<open>The rounded result as a number: infinite when the rounding reaches \<open>2 ^ 1024\<close>.\<close>

definition ovf :: "rat \<Rightarrow> number" where
  "ovf x =
     (let y = fl x
      in if 2 ^ 1024 \<le> y then PosInf else if y \<le> - (2 ^ 1024) then NegInf else Fin y)"

text \<open>
  \<open>num\<close> is the number an integer field arrives as, \<open>lit\<close> the value of a numeric
  literal of the source text; \<open>jadd\<close>, \<open>jsub\<close>, \<open>jmul\<close> and \<open>jdiv\<close> are the operators
  \<open>+\<close>, \<open>-\<close>, \<open>*\<close> and \<open>/\<close> on numbers, \<open>jlt\<close> and \<open>jle\<close> the comparisons \<open><\<close> and
  \<open><=\<close>, which are false when an operand is NaN.
\<close>

definition num :: "int \<Rightarrow> number" where
  "num i = ovf (of_int i)"

definition lit :: "rat \<Rightarrow> number" where
  "lit q = ovf q"

fun jneg :: "number \<Rightarrow> number" where
  "jneg (Fin a) = Fin (- a)"
| "jneg PosInf = NegInf"
| "jneg NegInf = PosInf"
| "jneg NaN = NaN"

fun jadd :: "number \<Rightarrow> number \<Rightarrow> number" where
  "jadd (Fin a) (Fin b) = ovf (a + b)"
| "jadd NaN b = NaN"
| "jadd a NaN = NaN"
| "jadd PosInf NegInf = NaN"
| "jadd NegInf PosInf = NaN"
| "jadd PosInf b = PosInf"
| "jadd a PosInf = PosInf"
| "jadd NegInf b = NegInf"
| "jadd a NegInf = NegInf"

definition jsub :: "number \<Rightarrow> number \<Rightarrow> number" where
  "jsub a b = jadd a (jneg b)"

fun jmul :: "number \<Rightarrow> number \<Rightarrow> number" where
  "jmul (Fin a) (Fin b) = ovf (a * b)"
| "jmul NaN b = NaN"
| "jmul a NaN = NaN"
| "jmul (Fin a) b = (if a = 0 then NaN else if 0 < a then b else jneg b)"
| "jmul a (Fin b) = (if b = 0 then NaN else if 0 < b then a else jneg a)"
| "jmul PosInf b = b"
| "jmul NegInf b = jneg b"

fun jdiv :: "number \<Rightarrow> number \<Rightarrow> number" where
  "jdiv (Fin a) (Fin b) =
     (if b = 0 then (if a = 0 then NaN else if 0 < a then PosInf else NegInf) else ovf (a / b))"
| "jdiv NaN b = NaN"
| "jdiv a NaN = NaN"
| "jdiv (Fin a) b = Fin 0"
| "jdiv a (Fin b) = (if 0 \<le> b then a else jneg a)"
| "jdiv a b = NaN"

fun jlt :: "number \<Rightarrow> number \<Rightarrow> bool" where
  "jlt (Fin a) (Fin b) = (a < b)"
| "jlt NaN b = False"
| "jlt a NaN = False"
| "jlt a NegInf = False"
| "jlt PosInf b = False"
| "jlt a b = True"

fun jle :: "number \<Rightarrow> number \<Rightarrow> bool" where
  "jle (Fin a) (Fin b) = (a \<le> b)"
| "jle NaN b = False"
| "jle a NaN = False"
| "jle NegInf b = True"
| "jle a PosInf = True"
| "jle a b = False"

fun Math_max :: "number \<Rightarrow> number \<Rightarrow> number" where
  "Math_max NaN b = NaN"
| "Math_max a NaN = NaN"
| "Math_max a b = (if jlt a b then b else a)"

fun Math_min :: "number \<Rightarrow> number \<Rightarrow> number" where
  "Math_min NaN b = NaN"
| "Math_min a NaN = NaN"
| "Math_min a b = (if jlt b a then b else a)"

text \<open>
  The text that \<open>toFixed\<close> returns and \<open>parseFloat\<close> reads: a decimal numeral, given by
  its value, or one of the words \<open>NaN\<close>, \<open>Infinity\<close> and \<open>-Infinity\<close>.
\<close>

datatype numtext = Decimal rat | TextNaN | TextInfinity | TextNegInfinity

datatype js_error = RangeError

text \<open>
  \<open>x.toFixed(f)\<close> raises a RangeError unless \<open>0 \<le> f \<le> 100\<close>. Otherwise, for a finite
  \<open>x\<close> below \<open>10 ^ 21\<close> in magnitude, it is the numeral \<open>n / 10 ^ f\<close> for the integer
  \<open>n\<close> that makes \<open>n / 10 ^ f - x\<close> closest to zero, the larger \<open>n\<close> on a tie, a negative
  \<open>x\<close> being formatted as the negation of \<open>- x\<close>; from \<open>10 ^ 21\<close> on it is the text of
  \<open>x\<close> itself, which \<open>parseFloat\<close> reads back as \<open>x\<close>.
\<close>

definition fixedText :: "nat \<Rightarrow> number \<Rightarrow> numtext" where
  "fixedText f x =
     (case x of
        Fin v \<Rightarrow>
          Decimal
            (if 10 ^ 21 \<le> \<bar>v\<bar> then v
             else if v < 0 then - (of_int \<lfloor>- v * 10 ^ f + 1/2\<rfloor> / 10 ^ f)
             else of_int \<lfloor>v * 10 ^ f + 1/2\<rfloor> / 10 ^ f)
      | PosInf \<Rightarrow> TextInfinity
      | NegInf \<Rightarrow> TextNegInfinity
      | NaN \<Rightarrow> TextNaN)"

definition toFixed :: "nat \<Rightarrow> number \<Rightarrow> js_error + numtext" where
  "toFixed f x = (if 100 < f then Inl RangeError else Inr (fixedText f x))"

fun parseFloat :: "numtext \<Rightarrow> number" where
  "parseFloat (Decimal q) = ovf q"
| "parseFloat TextNaN = NaN"
| "parseFloat TextInfinity = PosInf"
| "parseFloat TextNegInfinity = NegInf"

section \<open>Data model (\<open>shared/schema.ts\<close>)\<close>

text \<open>
  The insert schema of table \<open>patient_data\<close>: integer columns are integers, text
  columns are strings, \<open>blood_sugar\<close> is nullable.
\<close>

record PatientData =
  age :: int
  gender :: string
  sleepQuality :: int
  stressLevel :: int
  physicalActivity :: int
  diabetesStatus :: string
  bloodSugar :: "int option"
  systolicBP :: int
  diastolicBP :: int
  familyHistory :: string
  currentMedications :: string
  lastDropHours :: int

record RealTimeRiskResponse =
  risk_percentage :: number
  risk_level :: string
  average_predicted_iop :: number
  message :: string

section \<open>The risk computation (\<open>calculateRealTimeRisk\<close>)\<close>

text \<open>
  Lines 149 to 176: the accumulation of \<open>riskScore\<close>, statement by statement. A branch
  that is not taken leaves the score as it is.
\<close>

definition riskScore :: "PatientData \<Rightarrow> number" where
  "riskScore d =
    (let r0 = lit 0;
         r1 = jadd r0 (Math_max (lit 0) (jmul (jsub (num (age d)) (lit 40)) (lit (5/10))));
         r2 = jadd r1 (jmul (jsub (lit 10) (num (sleepQuality d))) (lit 2));
         r3 = jadd r2 (jmul (num (stressLevel d)) (lit (15/10)));
         r4 = jadd r3 (jmul (jsub (lit 10) (num (physicalActivity d))) (lit (12/10)));
         r5 = (if jlt (lit 140) (num (systolicBP d)) \<or> jlt (lit 90) (num (diastolicBP d))
               then jadd r4 (lit 8)
               else if jlt (lit 130) (num (systolicBP d)) \<or> jlt (lit 80) (num (diastolicBP d))
               then jadd r4 (lit 4)
               else r4);
         r6 = (if diabetesStatus d = ''type1'' \<or> diabetesStatus d = ''type2'' then jadd r5 (lit 12)
               else if diabetesStatus d = ''prediabetes'' then jadd r5 (lit 6)
               else r5);
         r7 = (if familyHistory d = ''multiple'' then jadd r6 (lit 15)
               else if familyHistory d = ''parent'' \<or> familyHistory d = ''sibling'' then jadd r6 (lit 8)
               else r6);
         r8 = (if jlt (lit 24) (num (lastDropHours d))
               then jadd r7 (jmul (jsub (num (lastDropHours d)) (lit 24)) (lit (8/10)))
               else r7)
     in r8)"

text \<open>Line 179: \<open>const riskPercentage = Math.min(100, Math.max(0, riskScore))\<close>\<close>

definition riskPercentage :: "PatientData \<Rightarrow> number" where
  "riskPercentage d = Math_min (lit 100) (Math_max (lit 0) (riskScore d))"

text \<open>Lines 182 to 184: the average predicted IOP, from the percentage before it is rounded.\<close>

definition averagePredictedIop :: "number \<Rightarrow> js_error + number" where
  "averagePredictedIop p =
    (let baseIOP = lit 14;
         riskMultiplier = jadd (lit 1) (jmul (jdiv p (lit 100)) (lit (6/10)))
     in case toFixed 1 (jmul baseIOP riskMultiplier) of
          Inl e \<Rightarrow> Inl e
        | Inr s \<Rightarrow> Inr (parseFloat s))"

text \<open>Lines 187 to 202: the chain of comparisons that sets \<open>riskLevel\<close> and \<open>message\<close>.\<close>

definition riskLevelMessage :: "number \<Rightarrow> string \<times> string" where
  "riskLevelMessage p =
    (if jlt p (lit 20) then
       (''low'', ''Current treatment appears to be working effectively. Continue current regimen.'')
     else if jlt p (lit 40) then
       (''moderate'', ''Elevated risk detected. Consider adjusting treatment schedule or medication.'')
     else if jlt p (lit 70) then
       (''high'', ''High risk of elevated IOP. Recommend immediate consultation with ophthalmologist.'')
     else
       (''critical'', ''Critical risk level. Emergency ophthalmology consultation required.''))"

text \<open>The four levels with their messages.\<close>

definition riskTemplates :: "(string \<times> string) list" where
  "riskTemplates =
    [(''low'', ''Current treatment appears to be working effectively. Continue current regimen.''),
     (''moderate'', ''Elevated risk detected. Consider adjusting treatment schedule or medication.''),
     (''high'', ''High risk of elevated IOP. Recommend immediate consultation with ophthalmologist.''),
     (''critical'', ''Critical risk level. Emergency ophthalmology consultation required.'')]"

text \<open>
  The whole function; lines 204 to 209 build the result. An error raised by one of the
  two calls of \<open>toFixed\<close> would leave the function, so it is the result.
\<close>

definition calculateRealTimeRisk :: "PatientData \<Rightarrow> js_error + RealTimeRiskResponse" where
  "calculateRealTimeRisk d =
    (let p = riskPercentage d
     in case averagePredictedIop p of
          Inl e \<Rightarrow> Inl e
        | Inr iop \<Rightarrow>
            (let (riskLevel, msg) = riskLevelMessage p
             in case toFixed 1 p of
                  Inl e \<Rightarrow> Inl e
                | Inr s \<Rightarrow>
                    Inr \<lparr> risk_percentage = parseFloat s,
                          risk_level = riskLevel,
                          average_predicted_iop = iop,
                          message = msg \<rparr>))"

section \<open>The specification's formulas, in exact arithmetic\<close>

text \<open>Rounding to one decimal, a half going up.\<close>

definition round1 :: "rat \<Rightarrow> rat" where
  "round1 x = of_int \<lfloor>x * 10 + 1/2\<rfloor> / 10"

definition clamp100 :: "rat \<Rightarrow> rat" where
  "clamp100 x = min 100 (max 0 x)"

definition ageContribution :: "PatientData \<Rightarrow> rat" where
  "ageContribution d = max 0 ((of_int (age d) - 40) * (1/2))"

definition sleepContribution :: "PatientData \<Rightarrow> rat" where
  "sleepContribution d = (10 - of_int (sleepQuality d)) * 2"

definition stressContribution :: "PatientData \<Rightarrow> rat" where
  "stressContribution d = of_int (stressLevel d) * (3/2)"

definition activityContribution :: "PatientData \<Rightarrow> rat" where
  "activityContribution d = (10 - of_int (physicalActivity d)) * (12/10)"

definition bloodPressureContribution :: "PatientData \<Rightarrow> rat" where
  "bloodPressureContribution d =
     (if 140 < systolicBP d \<or> 90 < diastolicBP d then 8
      else if 130 < systolicBP d \<or> 80 < diastolicBP d then 4 else 0)"

definition diabetesContribution :: "PatientData \<Rightarrow> rat" where
  "diabetesContribution d =
     (if diabetesStatus d = ''type1'' \<or> diabetesStatus d = ''type2'' then 12
      else if diabetesStatus d = ''prediabetes'' then 6 else 0)"

definition familyContribution :: "PatientData \<Rightarrow> rat" where
  "familyContribution d =
     (if familyHistory d = ''multiple'' then 15
      else if familyHistory d = ''parent'' \<or> familyHistory d = ''sibling'' then 8 else 0)"

definition doseContribution :: "PatientData \<Rightarrow> rat" where
  "doseContribution d =
     (if 24 < lastDropHours d then (of_int (lastDropHours d) - 24) * (8/10) else 0)"

definition rawScore :: "PatientData \<Rightarrow> rat" where
  "rawScore d =
     ageContribution d + sleepContribution d + stressContribution d + activityContribution d
     + bloodPressureContribution d + diabetesContribution d + familyContribution d
     + doseContribution d"

definition specRiskPercentage :: "PatientData \<Rightarrow> rat" where
  "specRiskPercentage d = round1 (clamp100 (rawScore d))"

text \<open>The threshold table \<open>[0,20)\<close> low, \<open>[20,40)\<close> moderate, \<open>[40,70)\<close> high, \<open>[70,100]\<close> critical.\<close>

definition specRiskLevel :: "rat \<Rightarrow> string" where
  "specRiskLevel p =
     (if p < 20 then ''low'' else if p < 40 then ''moderate''
      else if p < 70 then ''high'' else ''critical'')"

definition specAverageIop :: "rat \<Rightarrow> rat" where
  "specAverageIop p = round1 (14 * (1 + (p / 100) * (6/10)))"

text \<open>The values a 32-bit integer column can hold.\<close>

definition int32 :: "int \<Rightarrow> bool" where
  "int32 i = (- (2 ^ 31) \<le> i \<and> i < 2 ^ 31)"

definition int32_fields :: "PatientData \<Rightarrow> bool" where
  "int32_fields d =
     (int32 (age d) \<and> int32 (sleepQuality d) \<and> int32 (stressLevel d)
      \<and> int32 (physicalActivity d) \<and> int32 (systolicBP d) \<and> int32 (diastolicBP d)
      \<and> int32 (lastDropHours d))"

text \<open>Two numbers in ascending order, unless one of them is NaN.\<close>

definition ascending :: "number \<Rightarrow> number \<Rightarrow> bool" where
  "ascending a b = (a = NaN \<or> b = NaN \<or> jle a b)"

section \<open>Sample records\<close>

definition scenario :: PatientData where
  "scenario = \<lparr> age = 50, gender = ''male'', sleepQuality = 7, stressLevel = 4,
     physicalActivity = 5, diabetesStatus = ''none'', bloodSugar = None, systolicBP = 120,
     diastolicBP = 80, familyHistory = ''none'', currentMedications = ''none'',
     lastDropHours = 24 \<rparr>"

text \<open>A record with a negative age and values far outside the documented ranges.\<close>

definition outOfRangePatient :: PatientData where
  "outOfRangePatient = \<lparr> age = - 5, gender = ''other'', sleepQuality = 250, stressLevel = - 3,
     physicalActivity = 0, diabetesStatus = ''unknown'', bloodSugar = None, systolicBP = - 1,
     diastolicBP = 1000, familyHistory = [], currentMedications = [], lastDropHours = - 7 \<rparr>"

text \<open>A record whose exact score is 20: stress 6, activity 10.8, dose 3.2.\<close>

definition boundaryPatient :: PatientData where
  "boundaryPatient = \<lparr> age = 30, gender = ''female'', sleepQuality = 10, stressLevel = 4,
     physicalActivity = 1, diabetesStatus = ''none'', bloodSugar = None, systolicBP = 120,
     diastolicBP = 80, familyHistory = ''none'', currentMedications = ''none'',
     lastDropHours = 28 \<rparr>"

text \<open>A record whose exact score is 87.5, so that the exact IOP value is 21.35.\<close>

definition tiePatient :: PatientData where
  "tiePatient = \<lparr> age = 30, gender = ''male'', sleepQuality = 7, stressLevel = 9,
     physicalActivity = 6, diabetesStatus = ''type2'', bloodSugar = Some 140, systolicBP = 150,
     diastolicBP = 85, familyHistory = ''parent'', currentMedications = ''timolol'',
     lastDropHours = 68 \<rparr>"


definition overflowPatient2 :: PatientData where
  "overflowPatient2 = \<lparr> age = 50, gender = ''female'', sleepQuality = - (2 ^ 1023),
     stressLevel = 4, physicalActivity = 7 * 2 ^ 1021, diabetesStatus = ''none'',
     bloodSugar = None, systolicBP = 120, diastolicBP = 80, familyHistory = ''none'',
     currentMedications = ''none'', lastDropHours = 24 \<rparr>"

section \<open>The forecast engine\<close>

text \<open>
  Modelled from the spec: the forecast generator is the script \<open>server/ml/iop_model.py\<close>,
  which \<open>callPythonModel\<close> starts as a subprocess; the script is not among the sources, only
  its caller and the type \<open>IopForecastResponse\<close> of its output are. The definitions below
  follow section 4.2 of the specification. The specification fixes neither the constants
  of the circadian curve nor the format of the time string, so the unrounded hourly value
  \<open>curve d h\<close> and the formatting \<open>fmt\<close> of an hour are parameters.
\<close>

record HourlyPrediction =
  hour :: nat
  predicted_iop :: rat
  hour_risk_level :: string

record CircadianAnalysis =
  peak_iop :: rat
  trough_iop :: rat
  average_iop :: rat

record IopForecastResponse =
  predictions :: "HourlyPrediction list"
  optimal_drop_time :: string
  circadian_analysis :: CircadianAnalysis
  risk_assessment :: "js_error + RealTimeRiskResponse"

text \<open>
  Modelled from the spec: the hourly level by absolute thresholds, \<open><15\<close> low, \<open>[15,18)\<close>
  moderate, \<open>[18,21)\<close> high, \<open>\<ge>21\<close> critical.
\<close>

definition hourRiskLevel :: "rat \<Rightarrow> string" where
  "hourRiskLevel v =
     (if v < 15 then ''low'' else if v < 18 then ''moderate''
      else if v < 21 then ''high'' else ''critical'')"

text \<open>
  Modelled from the spec: one entry per hour \<open>0..23\<close>, the hourly value rounded to one
  decimal.
\<close>

definition predictHour :: "(PatientData \<Rightarrow> nat \<Rightarrow> rat) \<Rightarrow> PatientData \<Rightarrow> nat \<Rightarrow> HourlyPrediction" where
  "predictHour curve d h =
     (let v = round1 (curve d h)
      in \<lparr> hour = h, predicted_iop = v, hour_risk_level = hourRiskLevel v \<rparr>)"

definition hourlyPredictions :: "(PatientData \<Rightarrow> nat \<Rightarrow> rat) \<Rightarrow> PatientData \<Rightarrow> HourlyPrediction list" where
  "hourlyPredictions curve d = map (predictHour curve d) [0..<24]"

text \<open>
  Modelled from the spec: the hour of the minimum, the earliest one on a tie. The scan
  keeps the best hour so far and replaces it only by a strictly smaller value.
\<close>

fun scanMin :: "nat \<Rightarrow> rat \<Rightarrow> HourlyPrediction list \<Rightarrow> nat" where
  "scanMin best bv [] = best"
| "scanMin best bv (p # ps) =
     (if predicted_iop p < bv then scanMin (hour p) (predicted_iop p) ps else scanMin best bv ps)"

definition optimalHour :: "HourlyPrediction list \<Rightarrow> nat" where
  "optimalHour ps = (case ps of [] \<Rightarrow> 0 | p # rest \<Rightarrow> scanMin (hour p) (predicted_iop p) rest)"

text \<open>Modelled from the spec: peak, trough and average over the entries, each rounded to one decimal.\<close>

definition circadianAnalysis :: "HourlyPrediction list \<Rightarrow> CircadianAnalysis" where
  "circadianAnalysis ps =
     (let vs = map predicted_iop ps
      in \<lparr> peak_iop = round1 (Max (set vs)),
           trough_iop = round1 (Min (set vs)),
           average_iop = round1 (sum_list vs / of_nat (length vs)) \<rparr>)"

text \<open>Modelled from the spec: the response assembled from the four parts.\<close>

definition computeForecast ::
  "(PatientData \<Rightarrow> nat \<Rightarrow> rat) \<Rightarrow> (nat \<Rightarrow> string) \<Rightarrow> PatientData \<Rightarrow> IopForecastResponse" where
  "computeForecast curve fmt d =
     (let ps = hourlyPredictions curve d
      in \<lparr> predictions = ps,
           optimal_drop_time = fmt (optimalHour ps),
           circadian_analysis = circadianAnalysis ps,
           risk_assessment = calculateRealTimeRisk d \<rparr>)"

text \<open>A curve for trying the engine: flat at 16 except for 12.34 at hours 15 and 20.\<close>

definition sampleCurve :: "PatientData \<Rightarrow> nat \<Rightarrow> rat" where
  "sampleCurve d h = (if h = 15 \<or> h = 20 then 1234 / 100 else 16)"

section \<open>Properties of the rounding\<close>

lemma pow2_pos: "0 < pow2 e"
  by (simp add: pow2_def)

lemma pow2_add: "pow2 (a + b) = pow2 a * pow2 b"
  by (simp add: pow2_def power_int_add)

lemma pow2_mono: "a \<le> b \<Longrightarrow> pow2 a \<le> pow2 b"
  by (simp add: pow2_def power_int_increasing)

lemma pow2_nat: "0 \<le> e \<Longrightarrow> pow2 e = 2 ^ nat e"
  by (simp add: pow2_def power_int_def)

lemma round_even_cases:
  "round_even y = \<lfloor>y\<rfloor> \<and> y - of_int \<lfloor>y\<rfloor> \<le> 1/2
   \<or> round_even y = \<lfloor>y\<rfloor> + 1 \<and> 1/2 \<le> y - of_int \<lfloor>y\<rfloor>"
  by (auto simp: round_even_def Let_def)

lemma round_even_err: "\<bar>of_int (round_even y) - y\<bar> \<le> 1 / 2"
proof -
  have "of_int \<lfloor>y\<rfloor> \<le> y" "y < of_int \<lfloor>y\<rfloor> + 1" by linarith+
  with round_even_cases [of y] show ?thesis by auto
qed

lemma round_even_of_int: "round_even (of_int k) = k"
  by (simp add: round_even_def)

lemma round_even_minus: "round_even (- y) = - round_even y"
proof (cases "y = of_int \<lfloor>y\<rfloor>")
  case True
  then obtain k where "y = of_int k" ..
  then show ?thesis by (simp add: round_even_of_int flip: of_int_minus)
next
  case False
  then have fl: "\<lfloor>- y\<rfloor> = - \<lfloor>y\<rfloor> - 1"
    by (metis ceiling_def ceiling_altdef minus_minus diff_minus_eq_add minus_diff_eq add.commute)
  show ?thesis
    unfolding round_even_def Let_def fl using False
    by (auto simp: algebra_simps)
qed

lemma round_even_mono: "y \<le> z \<Longrightarrow> round_even y \<le> round_even z"
proof -
  assume yz: "y \<le> z"
  then have f: "\<lfloor>y\<rfloor> \<le> \<lfloor>z\<rfloor>" by (rule floor_mono)
  show ?thesis
  proof (cases "\<lfloor>y\<rfloor> = \<lfloor>z\<rfloor>")
    case True
    with yz show ?thesis unfolding round_even_def Let_def by auto
  next
    case False
    with f have "\<lfloor>y\<rfloor> + 1 \<le> \<lfloor>z\<rfloor>" by simp
    moreover have "round_even y \<le> \<lfloor>y\<rfloor> + 1" using round_even_cases [of y] by auto
    moreover have "\<lfloor>z\<rfloor> \<le> round_even z" using round_even_cases [of z] by auto
    ultimately show ?thesis by linarith
  qed
qed

lemma expo_bounds:
  assumes "x \<noteq> 0"
  shows "pow2 (expo x) \<le> \<bar>x\<bar>" and "\<bar>x\<bar> < pow2 (expo x + 1)"
proof -
  define a where "a = \<bar>x\<bar>"
  have a: "0 < a" using assms by (simp add: a_def)
  have "pow2 (expo x) \<le> a \<and> a < pow2 (expo x + 1)"
  proof (cases "1 \<le> a")
    case True
    define m where "m = \<lfloor>a\<rfloor>"
    have m: "0 < m" using True by (simp add: m_def)
    have e: "expo x = bitlen m - 1" using True by (simp add: expo_def a_def m_def)
    have b1: "1 \<le> bitlen m" using m by (simp add: bitlen_alt_def)
    from bitlen_bounds [OF m] have lo: "2 ^ nat (bitlen m - 1) \<le> m" and hi: "m < 2 ^ nat (bitlen m)" by auto
    have "of_int m \<le> a" by (simp add: m_def)
    moreover have "(2::rat) ^ nat (bitlen m - 1) \<le> of_int m"
      using lo by (metis of_int_le_iff of_int_numeral of_int_power)
    moreover have "a < of_int m + 1" unfolding m_def by linarith
    moreover have "of_int m + 1 \<le> (2::rat) ^ nat (bitlen m)"
    proof -
      from hi have "m + 1 \<le> 2 ^ nat (bitlen m)" by simp
      then have "of_int (m + 1) \<le> (of_int (2 ^ nat (bitlen m)) :: rat)" by (simp only: of_int_le_iff)
      then show ?thesis by simp
    qed
    ultimately have "(2::rat) ^ nat (bitlen m - 1) \<le> a" "a < (2::rat) ^ nat (bitlen m)" by linarith+
    then show ?thesis using b1 by (simp add: e pow2_nat)
  next
    case False
    define m where "m = \<lfloor>1 / a\<rfloor>"
    define n where "n = bitlen m"
    have ia: "1 < 1 / a" using False a by simp
    have m: "0 < m" using ia by (simp add: m_def)
    have n1: "1 \<le> n" using m by (simp add: n_def bitlen_alt_def)
    from bitlen_bounds [OF m] have lo: "2 ^ nat (n - 1) \<le> m" and hi: "m < 2 ^ nat n"
      by (auto simp: n_def)
    have "of_int m \<le> 1 / a" by (simp add: m_def)
    moreover have "(2::rat) ^ nat (n - 1) \<le> of_int m"
      using lo by (metis of_int_le_iff of_int_numeral of_int_power)
    ultimately have "(2::rat) ^ nat (n - 1) \<le> 1 / a" by linarith
    then have "pow2 (n - 1) \<le> 1 / a" using n1 by (simp add: pow2_nat)
    then have up: "a * pow2 (n - 1) \<le> 1" using a by (simp add: field_simps)
    have "1 / a < of_int m + 1" unfolding m_def by linarith
    moreover have "of_int m + 1 \<le> (2::rat) ^ nat n"
    proof -
      from hi have "m + 1 \<le> 2 ^ nat n" by simp
      then have "of_int (m + 1) \<le> (of_int (2 ^ nat n) :: rat)" by (simp only: of_int_le_iff)
      then show ?thesis by simp
    qed
    ultimately have "1 / a < (2::rat) ^ nat n" by linarith
    then have "1 / a < pow2 n" using n1 by (simp add: pow2_nat)
    then have low: "1 < a * pow2 n" using a by (simp add: field_simps)
    have p1: "pow2 (1 - n) * pow2 (n - 1) = 1" "pow2 (- n) * pow2 n = 1" "pow2 (2 - n) = 2 * pow2 (1 - n)"
      "pow2 (1 - n) = 2 * pow2 (- n)" "pow2 n = 2 * pow2 (n - 1)"
      by (simp_all add: pow2_def power_int_diff power_int_minus field_simps)
    have ex: "expo x = (if a * pow2 (n - 1) = 1 then 1 - n else - n)"
      using False by (simp add: expo_def a_def m_def n_def Let_def)
    show ?thesis
    proof (cases "a * pow2 (n - 1) = 1")
      case True
      then have "a = pow2 (1 - n)" using p1(1) pow2_pos [of "n - 1"]
        by (metis mult_cancel_right less_irrefl)
      then show ?thesis using ex True a p1(3) by simp
    next
      case False
      with up have lt: "a * pow2 (n - 1) < 1" by simp
      have "pow2 (- n) < a"
        using low p1(2) pow2_pos [of n] by (metis mult_less_cancel_right_pos)
      moreover have "a < pow2 (1 - n)"
        using lt p1(1) pow2_pos [of "n - 1"] by (metis mult_less_cancel_right_pos)
      ultimately show ?thesis using ex False by simp
    qed
  qed
  then show "pow2 (expo x) \<le> \<bar>x\<bar>" and "\<bar>x\<bar> < pow2 (expo x + 1)" by (simp_all add: a_def)
qed

lemma pow2_less_imp: "pow2 a < pow2 b \<Longrightarrow> a < b"
  using pow2_mono [of b a] by (cases "a < b") auto

lemma fl_zero: "fl 0 = 0"
  by (simp add: fl_def)

lemma expo_minus: "expo (- x) = expo x"
  by (simp add: expo_def)

lemma fl_minus: "fl (- x) = - fl x"
  by (simp add: fl_def expo_minus round_even_minus Let_def)

lemma fl_unit_err:
  assumes "x \<noteq> 0"
  shows "\<bar>fl x - x\<bar> \<le> pow2 (max (expo x) (- 1022) - 52) / 2"
proof -
  define u where "u = pow2 (max (expo x) (- 1022) - 52)"
  have u: "0 < u" by (simp add: u_def pow2_pos)
  have "fl x - x = (of_int (round_even (x / u)) - x / u) * u"
    using assms u by (simp add: fl_def u_def Let_def algebra_simps)
  then have "\<bar>fl x - x\<bar> = \<bar>of_int (round_even (x / u)) - x / u\<bar> * u"
    using u by (simp add: abs_mult)
  also have "\<dots> \<le> (1 / 2) * u"
    using round_even_err [of "x / u"] u by (intro mult_right_mono) auto
  finally show ?thesis by (simp add: u_def)
qed

text \<open>The error of a rounding: relative, or half the subnormal spacing.\<close>

lemma fl_rel_err: "\<bar>fl x - x\<bar> \<le> \<bar>x\<bar> / 2 ^ 53 + pow2 (- 1075)"
proof (cases "x = 0")
  case True
  then show ?thesis using pow2_pos [of "- 1075"] by (simp add: fl_zero)
next
  case False
  have p: "0 < pow2 (- 1075)" by (rule pow2_pos)
  have x: "0 \<le> \<bar>x\<bar> / 2 ^ 53" by simp
  show ?thesis
  proof (cases "- 1022 \<le> expo x")
    case True
    then have "pow2 (max (expo x) (- 1022) - 52) / 2 = pow2 (expo x) / 2 ^ 53"
      by (simp add: max_def pow2_def power_int_diff)
    also have "\<dots> \<le> \<bar>x\<bar> / 2 ^ 53"
      using expo_bounds(1) [OF False] by (simp add: divide_right_mono)
    finally show ?thesis using fl_unit_err [OF False] p by linarith
  next
    case False
    then have "pow2 (max (expo x) (- 1022) - 52) / 2 = pow2 (- 1075)"
      by (simp add: max_def pow2_def power_int_diff)
    then show ?thesis using fl_unit_err [OF \<open>x \<noteq> 0\<close>] x by linarith
  qed
qed

lemma fl_nonneg:
  assumes "0 \<le> x"
  shows "0 \<le> fl x"
proof (cases "x = 0")
  case True
  then show ?thesis by (simp add: fl_zero)
next
  case False
  define u where "u = pow2 (max (expo x) (- 1022) - 52)"
  have u: "0 < u" by (simp add: u_def pow2_pos)
  have "0 \<le> x / u" using assms u by simp
  then have "round_even (of_int 0) \<le> round_even (x / u)" by (intro round_even_mono) simp
  then have "0 \<le> round_even (x / u)" by (simp only: round_even_of_int)
  then show ?thesis using False u by (simp add: fl_def u_def [symmetric] Let_def)
qed

lemma fl_pos_upper:
  assumes "0 < x"
  shows "fl x \<le> pow2 (max (expo x) (- 1022) + 1)"
proof -
  define e where "e = max (expo x) (- 1022)"
  define u where "u = pow2 (e - 52)"
  have u: "0 < u" by (simp add: u_def pow2_pos)
  have x0: "x \<noteq> 0" using assms by simp
  have f: "fl x = of_int (round_even (x / u)) * u"
    using x0 by (simp add: fl_def u_def e_def Let_def)
  have e2: "pow2 (e + 1) = 2 ^ 53 * u"
    by (simp add: u_def pow2_def power_int_diff power_int_add)
  have "x < pow2 (expo x + 1)" using expo_bounds(2) [OF x0] assms by simp
  also have "\<dots> \<le> pow2 (e + 1)" by (intro pow2_mono) (simp add: e_def)
  finally have "x < 2 ^ 53 * u" by (simp add: e2)
  then have "x / u \<le> of_int (2 ^ 53)" using u by (simp add: field_simps)
  then have "round_even (x / u) \<le> round_even (of_int (2 ^ 53))" by (rule round_even_mono)
  then have "round_even (x / u) \<le> (2::int) ^ 53" by (simp only: round_even_of_int)
  then have "(of_int (round_even (x / u)) :: rat) \<le> of_int (2 ^ 53)" by (simp only: of_int_le_iff)
  then have "of_int (round_even (x / u)) * u \<le> 2 ^ 53 * u"
    using u by (intro mult_right_mono) auto
  then show ?thesis by (simp add: f e2 e_def [symmetric])
qed

lemma fl_pos_lower:
  assumes "0 < x" "- 1022 \<le> expo x"
  shows "pow2 (expo x) \<le> fl x"
proof -
  define u where "u = pow2 (expo x - 52)"
  have u: "0 < u" by (simp add: u_def pow2_pos)
  have x0: "x \<noteq> 0" using assms by simp
  have f: "fl x = of_int (round_even (x / u)) * u"
    using x0 assms(2) by (simp add: fl_def u_def Let_def max_def)
  have e1: "pow2 (expo x) = 2 ^ 52 * u"
    by (simp add: u_def pow2_def power_int_diff)
  from expo_bounds(1) [OF x0] assms have "2 ^ 52 * u \<le> x" by (simp add: e1)
  then have "of_int (2 ^ 52) \<le> x / u" using u by (simp add: field_simps)
  then have "round_even (of_int (2 ^ 52)) \<le> round_even (x / u)" by (rule round_even_mono)
  then have "(2::int) ^ 52 \<le> round_even (x / u)" by (simp only: round_even_of_int)
  then have "(of_int (2 ^ 52) :: rat) \<le> of_int (round_even (x / u))" by (simp only: of_int_le_iff)
  then have "2 ^ 52 * u \<le> of_int (round_even (x / u)) * u"
    using u by (intro mult_right_mono) auto
  then show ?thesis by (simp add: f e1)
qed

lemma fl_mono_pos:
  assumes "0 < x" "x \<le> y"
  shows "fl x \<le> fl y"
proof -
  have y: "0 < y" using assms by linarith
  have x0: "x \<noteq> 0" and y0: "y \<noteq> 0" using assms y by auto
  define ex ey where "ex = max (expo x) (- 1022)" and "ey = max (expo y) (- 1022)"
  have "pow2 (expo x) \<le> x" "y < pow2 (expo y + 1)"
    using expo_bounds(1) [OF x0] expo_bounds(2) [OF y0] assms y by auto
  then have "pow2 (expo x) < pow2 (expo y + 1)" using assms by linarith
  then have "expo x \<le> expo y" using pow2_less_imp by fastforce
  then have le: "ex \<le> ey" by (simp add: ex_def ey_def)
  show ?thesis
  proof (cases "ex = ey")
    case True
    define u where "u = pow2 (ex - 52)"
    have u: "0 < u" by (simp add: u_def pow2_pos)
    have "x / u \<le> y / u" using assms u by (simp add: divide_right_mono)
    then have "round_even (x / u) \<le> round_even (y / u)" by (rule round_even_mono)
    then have "(of_int (round_even (x / u)) :: rat) \<le> of_int (round_even (y / u))"
      by (simp only: of_int_le_iff)
    then have "of_int (round_even (x / u)) * u \<le> of_int (round_even (y / u)) * u"
      using u by (intro mult_right_mono) auto
    moreover have "fl x = of_int (round_even (x / u)) * u"
      using x0 by (simp add: fl_def u_def ex_def Let_def)
    moreover have "fl y = of_int (round_even (y / u)) * u"
      using y0 True by (simp add: fl_def u_def ey_def Let_def)
    ultimately show ?thesis by simp
  next
    case False
    with le have lt: "ex + 1 \<le> ey" by simp
    then have "- 1022 < ey" unfolding ex_def by linarith
    then have ny: "- 1022 \<le> expo y" "ey = expo y" by (simp_all add: ey_def max_def split: if_splits)
    have "fl x \<le> pow2 (ex + 1)" using fl_pos_upper [OF assms(1)] by (simp add: ex_def)
    also have "\<dots> \<le> pow2 ey" using lt by (rule pow2_mono)
    also have "\<dots> \<le> fl y" using fl_pos_lower [OF y ny(1)] by (simp add: ny(2))
    finally show ?thesis .
  qed
qed

lemma fl_mono: "x \<le> y \<Longrightarrow> fl x \<le> fl y"
proof -
  assume xy: "x \<le> y"
  consider "0 < x" | "x \<le> 0" "0 \<le> y" | "y < 0" by linarith
  then show ?thesis
  proof cases
    case 1
    then show ?thesis using xy by (rule fl_mono_pos)
  next
    case 2
    have "0 \<le> fl (- x)" using 2 by (intro fl_nonneg) simp
    then have "fl x \<le> 0" by (simp add: fl_minus)
    moreover have "0 \<le> fl y" using 2 by (intro fl_nonneg)
    ultimately show ?thesis by linarith
  next
    case 3
    then have "0 < - y" "- y \<le> - x" using xy by auto
    from fl_mono_pos [OF this] show ?thesis by (simp add: fl_minus)
  qed
qed

section \<open>Evaluation on numerals\<close>

lemma floor_rat_numeral_div:
  "\<lfloor>(numeral a :: rat) / numeral b\<rfloor> = numeral a div numeral b"
  using floor_divide_of_int_eq [of "numeral a" "numeral b", where ?'a = rat] by simp

lemma floor_rat_neg_numeral_div:
  "\<lfloor>- ((numeral a :: rat) / numeral b)\<rfloor> = - numeral a div numeral b"
  using floor_divide_of_int_eq [of "- numeral a" "numeral b", where ?'a = rat] by simp

lemma floor_rat_one_div:
  "\<lfloor>(1 :: rat) / numeral b\<rfloor> = 1 div numeral b"
  using floor_divide_of_int_eq [of 1 "numeral b", where ?'a = rat] by simp

lemma floor_rat_neg_one_div:
  "\<lfloor>- ((1 :: rat) / numeral b)\<rfloor> = - 1 div numeral b"
  using floor_divide_of_int_eq [of "- 1" "numeral b", where ?'a = rat] by simp

lemma bitlen_numeral:
  "bitlen 1 = 1"
  "bitlen (numeral (Num.Bit0 n)) = bitlen (numeral n) + 1"
  "bitlen (numeral (Num.Bit1 n)) = bitlen (numeral n) + 1"
proof -
  show "bitlen 1 = 1" by (subst compute_bitlen) simp
  have "numeral (Num.Bit0 n) div 2 = (numeral n :: int)" by simp
  then show "bitlen (numeral (Num.Bit0 n)) = bitlen (numeral n) + 1"
    by (subst compute_bitlen) simp
  have "numeral (Num.Bit1 n) div 2 = (numeral n :: int)" by simp
  then show "bitlen (numeral (Num.Bit1 n)) = bitlen (numeral n) + 1"
    by (subst compute_bitlen) simp
qed

lemma pow2_eval: "pow2 e = (if 0 \<le> e then 2 ^ nat e else 1 / 2 ^ nat (- e))"
  by (simp add: pow2_def power_int_def power_one_over inverse_eq_divide)

lemmas fl_eval =
  ovf_def fl_def expo_def pow2_eval round_even_def Let_def bitlen_numeral
  floor_rat_numeral_div floor_rat_neg_numeral_div floor_rat_one_div floor_rat_neg_one_div

lemmas op_defs =
  num_def lit_def jsub_def fixedText_def toFixed_def

lemma lit_ints:
  "lit 0 = Fin 0" "lit 1 = Fin 1" "lit 2 = Fin 2" "lit 4 = Fin 4" "lit 6 = Fin 6" "lit 8 = Fin 8"
  "lit 10 = Fin 10" "lit 12 = Fin 12" "lit 14 = Fin 14" "lit 15 = Fin 15" "lit 20 = Fin 20"
  "lit 24 = Fin 24" "lit 40 = Fin 40" "lit 70 = Fin 70" "lit 80 = Fin 80" "lit 90 = Fin 90"
  "lit 100 = Fin 100" "lit 130 = Fin 130" "lit 140 = Fin 140"
  by (simp_all add: lit_def fl_eval)

lemma lit_fracs:
  "lit (5/10) = Fin (1/2)" "lit (15/10) = Fin (3/2)"
  "lit (12/10) = Fin (5404319552844595 / 4503599627370496)"
  "lit (8/10) = Fin (3602879701896397 / 4503599627370496)"
  "lit (6/10) = Fin (5404319552844595 / 9007199254740992)"
  by (simp_all add: lit_def fl_eval)

lemma lit_fracs_n:
  "lit (1/2) = Fin (1/2)" "lit (3/2) = Fin (3/2)"
  "lit (6/5) = Fin (5404319552844595 / 4503599627370496)"
  "lit (4/5) = Fin (3602879701896397 / 4503599627370496)"
  "lit (3/5) = Fin (5404319552844595 / 9007199254740992)"
  by (simp_all add: lit_def fl_eval)

text \<open>A result of moderate magnitude is finite.\<close>

lemma ovf_fin:
  assumes "\<bar>x\<bar> \<le> 2 ^ 1000"
  shows "ovf x = Fin (fl x)"
proof -
  have "pow2 (- 1075) \<le> pow2 0" by (rule pow2_mono) simp
  then have p: "pow2 (- 1075) \<le> 1" by (simp add: pow2_def)
  have "\<bar>x\<bar> / 2 ^ 53 \<le> \<bar>x\<bar>" by (simp add: field_simps)
  with fl_rel_err [of x] p have "\<bar>fl x\<bar> \<le> 2 * \<bar>x\<bar> + 1" by linarith
  also have "\<dots> \<le> 2 * 2 ^ 1000 + 1" using assms by simp
  also have "\<dots> < (2::rat) ^ 1024" by simp
  finally have "\<bar>fl x\<bar> < 2 ^ 1024" .
  then show ?thesis by (simp add: ovf_def Let_def abs_less_iff not_le)
qed

lemma ovf_mono: "x \<le> y \<Longrightarrow> jle (ovf x) (ovf y)"
  using fl_mono [of x y] by (auto simp: ovf_def Let_def)

lemma ovf_not_NaN: "ovf x \<noteq> NaN"
  by (simp add: ovf_def Let_def)

section \<open>The shape of the result\<close>

lemma toFixed_1: "toFixed 1 x = Inr (fixedText 1 x)"
  by (simp add: toFixed_def)

lemma toFixed_Suc_0: "toFixed (Suc 0) x = Inr (fixedText (Suc 0) x)"
  by (simp add: toFixed_def)

lemma averagePredictedIop_Inr:
  "averagePredictedIop p =
     Inr (parseFloat (fixedText 1
       (jmul (lit 14) (jadd (lit 1) (jmul (jdiv p (lit 100)) (lit (6/10)))))))"
  by (simp add: averagePredictedIop_def Let_def toFixed_Suc_0)

lemma calculateRealTimeRisk_Inr:
  "calculateRealTimeRisk d =
     Inr \<lparr> risk_percentage = parseFloat (fixedText 1 (riskPercentage d)),
           risk_level = fst (riskLevelMessage (riskPercentage d)),
           average_predicted_iop = parseFloat (fixedText 1
             (jmul (lit 14) (jadd (lit 1) (jmul (jdiv (riskPercentage d) (lit 100)) (lit (6/10)))))),
           message = snd (riskLevelMessage (riskPercentage d)) \<rparr>"
  by (simp add: calculateRealTimeRisk_def Let_def averagePredictedIop_def toFixed_Suc_0 split_beta)

lemma riskPercentage_cases:
  "riskPercentage d = NaN \<or> (\<exists>v. riskPercentage d = Fin v \<and> 0 \<le> v \<and> v \<le> 100)"
  unfolding riskPercentage_def lit_ints
  by (cases "riskScore d") auto

lemma fixedText_percent:
  "0 \<le> v \<Longrightarrow> v \<le> 100 \<Longrightarrow> fixedText 1 (Fin v) = Decimal (of_int \<lfloor>v * 10 + 1/2\<rfloor> / 10)"
  by (simp add: fixedText_def)

section \<open>Operations in ascending order\<close>

lemma jle_refl: "a \<noteq> NaN \<Longrightarrow> jle a a"
  by (cases a) simp_all

lemma ascending_refl: "ascending a a"
  by (cases a) (simp_all add: ascending_def)

lemma ascending_not_less: "ascending a b \<Longrightarrow> \<not> jlt b a"
  by (cases a; cases b) (auto simp: ascending_def)

lemma ascending_ovf: "x \<le> y \<Longrightarrow> ascending (ovf x) (ovf y)"
  by (simp add: ascending_def ovf_mono)

lemma ascending_num: "i \<le> j \<Longrightarrow> ascending (num i) (num j)"
  by (simp add: num_def ascending_ovf)

lemma ascending_PosInf: "ascending a PosInf"
  by (cases a) (simp_all add: ascending_def)

lemma ascending_NegInf: "ascending NegInf a"
  by (cases a) (simp_all add: ascending_def)

lemma ascending_jneg: "ascending a b \<Longrightarrow> ascending (jneg b) (jneg a)"
  by (cases a; cases b) (auto simp: ascending_def)

lemma ascending_jadd_right: "ascending b b' \<Longrightarrow> ascending (jadd c b) (jadd c b')"
proof (cases c)
  case (Fin z)
  assume "ascending b b'"
  then show ?thesis
    by (cases b; cases b') (auto simp: Fin ascending_PosInf ascending_NegInf ascending_refl
        intro: ascending_ovf simp: ascending_def [of "Fin _" "Fin _"] ascending_def [of NaN]
        ascending_def [of _ NaN] ascending_def [of PosInf] ascending_def [of _ NegInf])
qed (cases b; cases b'; simp add: ascending_def)+

lemma jadd_commute: "jadd a b = jadd b a"
  by (cases a; cases b) (simp_all add: add.commute)

lemma ascending_jadd_left: "ascending a a' \<Longrightarrow> ascending (jadd a c) (jadd a' c)"
  using ascending_jadd_right [of a a' c] by (simp add: jadd_commute)

lemma ascending_jsub_right: "ascending b b' \<Longrightarrow> ascending (jsub c b') (jsub c b)"
  unfolding jsub_def by (intro ascending_jadd_right ascending_jneg)

lemma ascending_jmul_pos:
  assumes "0 < c" "ascending a a'"
  shows "ascending (jmul a (Fin c)) (jmul a' (Fin c))"
proof -
  have "x \<le> y \<Longrightarrow> ascending (ovf (x * c)) (ovf (y * c))" for x y
    using assms(1) by (intro ascending_ovf mult_right_mono) simp_all
  then show ?thesis
    using assms
    by (cases a; cases a')
      (auto simp: ascending_PosInf ascending_NegInf ascending_refl
        ascending_def [of "Fin _" "Fin _"] ascending_def [of NaN]
        ascending_def [of _ NaN] ascending_def [of PosInf] ascending_def [of _ NegInf])
qed

lemma ascending_max: "ascending a a' \<Longrightarrow> ascending (Math_max c a) (Math_max c a')"
  by (cases a; cases a'; cases c) (auto simp: ascending_def)

lemma ascending_min: "ascending a a' \<Longrightarrow> ascending (Math_min c a) (Math_min c a')"
  by (cases a; cases a'; cases c) (auto simp: ascending_def)

lemma riskPercentage_ascending:
  "ascending (riskScore d) (riskScore d') \<Longrightarrow> ascending (riskPercentage d) (riskPercentage d')"
  unfolding riskPercentage_def by (intro ascending_min ascending_max)

lemma fixed_percentage_ascending:
  assumes "ascending (riskPercentage d) (riskPercentage d')"
  shows "ascending (parseFloat (fixedText 1 (riskPercentage d)))
           (parseFloat (fixedText 1 (riskPercentage d')))"
proof -
  from riskPercentage_cases [of d] riskPercentage_cases [of d'] show ?thesis
  proof (elim disjE exE conjE)
    fix v v' assume v: "riskPercentage d = Fin v" "0 \<le> v" "v \<le> 100"
      and v': "riskPercentage d' = Fin v'" "0 \<le> v'" "v' \<le> 100"
    from assms have "v \<le> v'" by (simp add: v v' ascending_def)
    then have "\<lfloor>v * 10 + 1/2\<rfloor> \<le> \<lfloor>v' * 10 + 1/2\<rfloor>" by (intro floor_mono) simp
    then have "(of_int \<lfloor>v * 10 + 1/2\<rfloor> :: rat) \<le> of_int \<lfloor>v' * 10 + 1/2\<rfloor>"
      by (simp only: of_int_le_iff)
    then have "(of_int \<lfloor>v * 10 + 1/2\<rfloor> :: rat) / 10 \<le> of_int \<lfloor>v' * 10 + 1/2\<rfloor> / 10"
      by (simp add: divide_right_mono)
    from ascending_ovf [OF this] show ?thesis
      by (simp only: v(1) v'(1) fixedText_percent [OF v(2,3)] fixedText_percent [OF v'(2,3)]
            parseFloat.simps)
  qed (simp_all add: fixedText_def ascending_def)
qed

lemma returned_percentage:
  "calculateRealTimeRisk d = Inr r \<Longrightarrow>
   risk_percentage r = parseFloat (fixedText 1 (riskPercentage d))"
  by (auto simp: calculateRealTimeRisk_Inr)

lemma riskScore_stress_ascending:
  assumes "stressLevel d \<le> s"
  shows "ascending (riskScore d) (riskScore (d\<lparr> stressLevel := s \<rparr>))"
proof -
  have "ascending (jmul (num (stressLevel d)) (lit (15/10))) (jmul (num s) (lit (15/10)))"
    unfolding lit_fracs by (intro ascending_jmul_pos ascending_num assms) simp
  then show ?thesis
    unfolding riskScore_def Let_def
    by (auto intro!: ascending_jadd_left ascending_jadd_right)
qed

lemma riskScore_sleep_ascending:
  assumes "q \<le> sleepQuality d"
  shows "ascending (riskScore d) (riskScore (d\<lparr> sleepQuality := q \<rparr>))"
proof -
  have "ascending (jmul (jsub (lit 10) (num (sleepQuality d))) (lit 2))
          (jmul (jsub (lit 10) (num q)) (lit 2))"
    unfolding lit_ints(3) by (intro ascending_jmul_pos ascending_jsub_right ascending_num assms) simp
  then show ?thesis
    unfolding riskScore_def Let_def
    by (auto intro!: ascending_jadd_left ascending_jadd_right)
qed

lemma percentage_ascending:
  assumes "ascending (riskScore d) (riskScore d')"
  shows "ascending (parseFloat (fixedText 1 (riskPercentage d)))
           (parseFloat (fixedText 1 (riskPercentage d')))"
  by (intro fixed_percentage_ascending riskPercentage_ascending assms)

section \<open>Error bounds for 32-bit fields\<close>

text \<open>
  For fields that are 32-bit values every intermediate result is finite and of magnitude
  below \<open>2 ^ 35\<close>, so each operation adds an error of at most \<open>2 ^ (-17)\<close>. The exact
  score is a multiple of one tenth, so rounding to one decimal removes the accumulated
  error.
\<close>

lemma pow2_tiny: "pow2 (- 1075) \<le> 1 / 2 ^ 53"
  using pow2_mono [of "- 1075" "- 53"] by (simp add: pow2_eval)

lemma ovf_step:
  assumes "\<bar>x - y\<bar> \<le> e" "\<bar>y\<bar> \<le> 34359738368" "e \<le> 1"
  shows "\<exists>v. ovf x = Fin v \<and> \<bar>v - y\<bar> \<le> e + 1 / 131072"
proof -
  have x: "\<bar>x\<bar> \<le> 34359738369" using assms by linarith
  have "(34359738369::rat) \<le> 2 ^ 1000" by simp
  with x have "\<bar>x\<bar> \<le> 2 ^ 1000" by (rule order_trans)
  then have f: "ovf x = Fin (fl x)" by (rule ovf_fin)
  have "\<bar>x\<bar> / 2 ^ 53 \<le> 34359738369 / 2 ^ 53" using x by (intro divide_right_mono) simp_all
  moreover have "34359738369 / 2 ^ 53 + 1 / 2 ^ 53 \<le> (1 / 131072 :: rat)" by simp
  ultimately have "\<bar>fl x - x\<bar> \<le> 1 / 131072" using fl_rel_err [of x] pow2_tiny by linarith
  with assms(1) have "\<bar>fl x - y\<bar> \<le> e + 1 / 131072" by linarith
  with f show ?thesis by simp
qed

lemma int32_bounds: "int32 i \<Longrightarrow> - 2147483648 \<le> (of_int i :: rat) \<and> (of_int i :: rat) \<le> 2147483648"
proof -
  assume "int32 i"
  then have "- (2 ^ 31) \<le> i" "i \<le> 2 ^ 31" by (simp_all add: int32_def)
  then have "(of_int (- (2 ^ 31)) :: rat) \<le> of_int i" "(of_int i :: rat) \<le> of_int (2 ^ 31)"
    by (simp_all only: of_int_le_iff)
  then show ?thesis by simp
qed

lemma num_near: "int32 i \<Longrightarrow> \<exists>v. num i = Fin v \<and> \<bar>v - of_int i\<bar> \<le> 1 / 131072"
proof -
  assume "int32 i"
  from int32_bounds [OF this] have "\<bar>(of_int i :: rat)\<bar> \<le> 34359738368"
    unfolding abs_le_iff by linarith
  from ovf_step [of "of_int i" "of_int i" 0, OF _ this] show ?thesis by (simp add: num_def)
qed

text \<open>Comparison of a field with an integer literal.\<close>

lemma num_less_lit:
  assumes "num k = Fin (of_int k)" "num (k + 1) = Fin (of_int (k + 1))"
  shows "jlt (Fin (of_int k)) (num i) \<longleftrightarrow> k < i"
proof
  assume l: "jlt (Fin (of_int k)) (num i)"
  show "k < i"
  proof (rule ccontr)
    assume "\<not> k < i"
    then have "(of_int i :: rat) \<le> of_int k" by simp
    from ovf_mono [OF this] assms(1) l show False
      unfolding num_def by (cases "ovf (rat_of_int i)") auto
  qed
next
  assume "k < i"
  then have "(of_int (k + 1) :: rat) \<le> of_int i" by (simp only: of_int_le_iff)
  from ovf_mono [OF this] assms(2) show "jlt (Fin (of_int k)) (num i)"
    unfolding num_def by (cases "ovf (rat_of_int i)") auto
qed

lemma num_less_lits:
  "jlt (Fin 140) (num i) \<longleftrightarrow> 140 < i" "jlt (Fin 90) (num i) \<longleftrightarrow> 90 < i"
  "jlt (Fin 130) (num i) \<longleftrightarrow> 130 < i" "jlt (Fin 80) (num i) \<longleftrightarrow> 80 < i"
  "jlt (Fin 24) (num i) \<longleftrightarrow> 24 < i"
proof -
  have e: "num 140 = Fin 140" "num 141 = Fin 141" "num 90 = Fin 90" "num 91 = Fin 91"
    "num 130 = Fin 130" "num 131 = Fin 131" "num 80 = Fin 80" "num 81 = Fin 81"
    "num 24 = Fin 24" "num 25 = Fin 25"
    by (simp_all add: num_def fl_eval)
  show "jlt (Fin 140) (num i) \<longleftrightarrow> 140 < i" using num_less_lit [of 140 i] e by simp
  show "jlt (Fin 90) (num i) \<longleftrightarrow> 90 < i" using num_less_lit [of 90 i] e by simp
  show "jlt (Fin 130) (num i) \<longleftrightarrow> 130 < i" using num_less_lit [of 130 i] e by simp
  show "jlt (Fin 80) (num i) \<longleftrightarrow> 80 < i" using num_less_lit [of 80 i] e by simp
  show "jlt (Fin 24) (num i) \<longleftrightarrow> 24 < i" using num_less_lit [of 24 i] e by simp
qed

lemma Math_max_Fin: "Math_max (Fin a) (Fin b) = Fin (max a b)"
  by (simp add: max_def)

lemma Math_min_Fin: "Math_min (Fin a) (Fin b) = Fin (min a b)"
  by (simp add: min_def)

lemma jadd_lit_err:
  assumes "\<bar>r - q\<bar> \<le> e" "\<bar>q\<bar> \<le> 17179869184" "e \<le> 1" "\<bar>c\<bar> \<le> 100"
  shows "\<exists>v. jadd (Fin r) (Fin c) = Fin v \<and> \<bar>v - (q + c)\<bar> \<le> e + 1 / 131072"
proof -
  have "\<bar>(r + c) - (q + c)\<bar> \<le> e" using assms(1) by simp
  moreover have "\<bar>q + c\<bar> \<le> 34359738368" using assms(2,4) by linarith
  ultimately show ?thesis
    using ovf_step [of "r + c" "q + c" e] assms(3) by simp
qed

lemma riskScore_error:
  assumes "int32_fields d"
  shows "\<exists>r. riskScore d = Fin r \<and> \<bar>r - rawScore d\<bar> \<le> 25 / 131072"
proof -
  define A S T P L :: rat where "A = of_int (age d)" and "S = of_int (sleepQuality d)"
    and "T = of_int (stressLevel d)" and "P = of_int (physicalActivity d)"
    and "L = of_int (lastDropHours d)"
  have i32: "int32 (age d)" "int32 (sleepQuality d)" "int32 (stressLevel d)"
    "int32 (physicalActivity d)" "int32 (lastDropHours d)"
    using assms by (simp_all add: int32_fields_def)
  have bA: "- 2147483648 \<le> A" "A \<le> 2147483648" using int32_bounds [OF i32(1)] by (simp_all add: A_def)
  have bS: "- 2147483648 \<le> S" "S \<le> 2147483648" using int32_bounds [OF i32(2)] by (simp_all add: S_def)
  have bT: "- 2147483648 \<le> T" "T \<le> 2147483648" using int32_bounds [OF i32(3)] by (simp_all add: T_def)
  have bP: "- 2147483648 \<le> P" "P \<le> 2147483648" using int32_bounds [OF i32(4)] by (simp_all add: P_def)
  have bL: "- 2147483648 \<le> L" "L \<le> 2147483648" using int32_bounds [OF i32(5)] by (simp_all add: L_def)
  from num_near [OF i32(1)] obtain nA where nA: "num (age d) = Fin nA" "\<bar>nA - A\<bar> \<le> 1 / 131072"
    unfolding A_def by blast
  from num_near [OF i32(2)] obtain nS where nS: "num (sleepQuality d) = Fin nS" "\<bar>nS - S\<bar> \<le> 1 / 131072"
    unfolding S_def by blast
  from num_near [OF i32(3)] obtain nT where nT: "num (stressLevel d) = Fin nT" "\<bar>nT - T\<bar> \<le> 1 / 131072"
    unfolding T_def by blast
  from num_near [OF i32(4)] obtain nP where nP: "num (physicalActivity d) = Fin nP" "\<bar>nP - P\<bar> \<le> 1 / 131072"
    unfolding P_def by blast
  from num_near [OF i32(5)] obtain nL where nL: "num (lastDropHours d) = Fin nL" "\<bar>nL - L\<bar> \<le> 1 / 131072"
    unfolding L_def by blast

  \<comment> \<open>age\<close>
  define R1 where "R1 = jadd (lit 0) (Math_max (lit 0) (jmul (jsub (num (age d)) (lit 40)) (lit (5/10))))"
  have "\<bar>(nA - 40) - (A - 40)\<bar> \<le> 1 / 131072" using nA(2) by simp
  moreover have "\<bar>A - 40\<bar> \<le> 34359738368" using bA by linarith
  ultimately obtain a2 where a2: "ovf (nA - 40) = Fin a2" and e_a2: "\<bar>a2 - (A - 40)\<bar> \<le> 2 / 131072"
    using ovf_step [of "nA - 40" "A - 40" "1 / 131072"] by auto
  have "\<bar>a2 * (1/2) - (A - 40) * (1/2)\<bar> \<le> 1 / 131072"
    using e_a2 unfolding abs_le_iff by (simp add: algebra_simps)
  moreover have "\<bar>(A - 40) * (1/2)\<bar> \<le> 34359738368"
    using bA unfolding abs_le_iff by (simp add: algebra_simps)
  ultimately obtain a3 where a3: "ovf (a2 * (1/2)) = Fin a3"
    and e_a3: "\<bar>a3 - (A - 40) * (1/2)\<bar> \<le> 2 / 131072"
    using ovf_step [of "a2 * (1/2)" "(A - 40) * (1/2)" "1 / 131072"] by auto
  have "\<bar>(0 + max 0 a3) - ageContribution d\<bar> \<le> 2 / 131072"
    using e_a3 unfolding ageContribution_def A_def [symmetric] abs_le_iff max_def
    by (auto simp: algebra_simps)
  moreover have b_age: "0 \<le> ageContribution d" "ageContribution d \<le> 1073741824"
    using bA unfolding ageContribution_def A_def [symmetric] max_def
    by (auto simp: algebra_simps)
  then have "\<bar>ageContribution d\<bar> \<le> 34359738368" by linarith
  ultimately obtain r1 where r1': "ovf (0 + max 0 a3) = Fin r1"
    and e1: "\<bar>r1 - ageContribution d\<bar> \<le> 3 / 131072"
    using ovf_step [of "0 + max 0 a3" "ageContribution d" "2 / 131072"] by auto
  have "jmul (jsub (num (age d)) (lit 40)) (lit (5/10)) = Fin a3"
    using a2 a3 by (simp add: jsub_def nA lit_ints lit_fracs_n)
  then have r1: "R1 = Fin r1"
    unfolding R1_def lit_ints using r1' by (simp only: Math_max_Fin jadd.simps)

  \<comment> \<open>sleep\<close>
  define R2 where "R2 = jadd R1 (jmul (jsub (lit 10) (num (sleepQuality d))) (lit 2))"
  have "\<bar>(10 - nS) - (10 - S)\<bar> \<le> 1 / 131072" using nS(2) by linarith
  moreover have "\<bar>10 - S\<bar> \<le> 34359738368" using bS by linarith
  ultimately obtain s2 where s2: "ovf (10 - nS) = Fin s2" and e_s2: "\<bar>s2 - (10 - S)\<bar> \<le> 2 / 131072"
    using ovf_step [of "10 - nS" "10 - S" "1 / 131072"] by auto
  have "\<bar>s2 * 2 - sleepContribution d\<bar> \<le> 4 / 131072"
    using e_s2 unfolding sleepContribution_def S_def [symmetric] abs_le_iff by (simp add: algebra_simps)
  moreover have b_sleep: "\<bar>sleepContribution d\<bar> \<le> 4294967316"
    using bS unfolding sleepContribution_def S_def [symmetric] abs_le_iff by (simp add: algebra_simps)
  then have "\<bar>sleepContribution d\<bar> \<le> 34359738368" by linarith
  ultimately obtain s3 where s3: "ovf (s2 * 2) = Fin s3"
    and e_s3: "\<bar>s3 - sleepContribution d\<bar> \<le> 5 / 131072"
    using ovf_step [of "s2 * 2" "sleepContribution d" "4 / 131072"] by auto
  have "\<bar>(r1 + s3) - (ageContribution d + sleepContribution d)\<bar> \<le> 8 / 131072"
    using e1 e_s3 by linarith
  moreover have "\<bar>ageContribution d + sleepContribution d\<bar> \<le> 34359738368"
    using b_age b_sleep by linarith
  ultimately obtain r2 where r2': "ovf (r1 + s3) = Fin r2"
    and e2: "\<bar>r2 - (ageContribution d + sleepContribution d)\<bar> \<le> 9 / 131072"
    using ovf_step [of "r1 + s3" "ageContribution d + sleepContribution d" "8 / 131072"] by auto
  have r2: "R2 = Fin r2"
    using s2 s3 r2' by (simp add: R2_def r1 jsub_def nS lit_ints)

  \<comment> \<open>stress\<close>
  define R3 where "R3 = jadd R2 (jmul (num (stressLevel d)) (lit (15/10)))"
  have "\<bar>nT * (3/2) - stressContribution d\<bar> \<le> 2 / 131072"
    using nT(2) unfolding stressContribution_def T_def [symmetric] abs_le_iff by (simp add: algebra_simps)
  moreover have b_stress: "\<bar>stressContribution d\<bar> \<le> 3221225472"
    using bT unfolding stressContribution_def T_def [symmetric] abs_le_iff by (simp add: algebra_simps)
  then have "\<bar>stressContribution d\<bar> \<le> 34359738368" by linarith
  ultimately obtain t2 where t2: "ovf (nT * (3/2)) = Fin t2"
    and e_t2: "\<bar>t2 - stressContribution d\<bar> \<le> 3 / 131072"
    using ovf_step [of "nT * (3/2)" "stressContribution d" "2 / 131072"] by auto
  define q3 where "q3 = ageContribution d + sleepContribution d + stressContribution d"
  have "\<bar>(r2 + t2) - q3\<bar> \<le> 12 / 131072" using e2 e_t2 unfolding q3_def by linarith
  moreover have b3: "\<bar>q3\<bar> \<le> 8589934612" using b_age b_sleep b_stress unfolding q3_def by linarith
  then have "\<bar>q3\<bar> \<le> 34359738368" by linarith
  ultimately obtain r3 where r3': "ovf (r2 + t2) = Fin r3" and e3: "\<bar>r3 - q3\<bar> \<le> 13 / 131072"
    using ovf_step [of "r2 + t2" q3 "12 / 131072"] by auto
  have r3: "R3 = Fin r3"
    using t2 r3' by (simp add: R3_def r2 nT lit_fracs_n)

  \<comment> \<open>activity\<close>
  define R4 where "R4 = jadd R3 (jmul (jsub (lit 10) (num (physicalActivity d))) (lit (12/10)))"
  have "\<bar>(10 - nP) - (10 - P)\<bar> \<le> 1 / 131072" using nP(2) by linarith
  moreover have "\<bar>10 - P\<bar> \<le> 34359738368" using bP by linarith
  ultimately obtain p2 where p2: "ovf (10 - nP) = Fin p2" and e_p2: "\<bar>p2 - (10 - P)\<bar> \<le> 2 / 131072"
    using ovf_step [of "10 - nP" "10 - P" "1 / 131072"] by auto
  have "\<bar>p2 * (5404319552844595 / 4503599627370496) - activityContribution d\<bar> \<le> 3 / 131072"
    using e_p2 bP unfolding activityContribution_def P_def [symmetric] abs_le_iff
    by (simp only: algebra_simps) linarith
  moreover have b_act: "\<bar>activityContribution d\<bar> \<le> 2576980390"
    using bP unfolding activityContribution_def P_def [symmetric] abs_le_iff by (simp add: field_simps)
  then have "\<bar>activityContribution d\<bar> \<le> 34359738368" by linarith
  ultimately obtain p3 where p3: "ovf (p2 * (5404319552844595 / 4503599627370496)) = Fin p3"
    and e_p3: "\<bar>p3 - activityContribution d\<bar> \<le> 4 / 131072"
    using ovf_step [of "p2 * (5404319552844595 / 4503599627370496)" "activityContribution d" "3 / 131072"]
    by auto
  define q4 where "q4 = q3 + activityContribution d"
  have "\<bar>(r3 + p3) - q4\<bar> \<le> 17 / 131072" using e3 e_p3 unfolding q4_def by linarith
  moreover have b4: "\<bar>q4\<bar> \<le> 11166915002" using b3 b_act unfolding q4_def by linarith
  then have "\<bar>q4\<bar> \<le> 34359738368" by linarith
  ultimately obtain r4 where r4': "ovf (r3 + p3) = Fin r4" and e4: "\<bar>r4 - q4\<bar> \<le> 18 / 131072"
    using ovf_step [of "r3 + p3" q4 "17 / 131072"] by auto
  have r4: "R4 = Fin r4"
    using p2 p3 r4' by (simp add: R4_def r3 jsub_def nP lit_ints lit_fracs_n)

  \<comment> \<open>blood pressure, diabetes, family history\<close>
  define R5 where "R5 =
    (if jlt (lit 140) (num (systolicBP d)) \<or> jlt (lit 90) (num (diastolicBP d)) then jadd R4 (lit 8)
     else if jlt (lit 130) (num (systolicBP d)) \<or> jlt (lit 80) (num (diastolicBP d)) then jadd R4 (lit 4)
     else R4)"
  define q5 where "q5 = q4 + bloodPressureContribution d"
  have b4': "\<bar>q4\<bar> \<le> 17179869184" using b4 by linarith
  have "\<exists>v. R5 = Fin v \<and> \<bar>v - q5\<bar> \<le> 19 / 131072"
    using jadd_lit_err [OF e4 b4', of 8] jadd_lit_err [OF e4 b4', of 4] e4
    unfolding R5_def q5_def bloodPressureContribution_def r4 lit_ints num_less_lits
    by (simp split: if_splits)
  then obtain r5 where r5: "R5 = Fin r5" and e5: "\<bar>r5 - q5\<bar> \<le> 19 / 131072" by blast
  have b5: "\<bar>q5\<bar> \<le> 11166915010"
    using b4 unfolding q5_def bloodPressureContribution_def by (auto simp: abs_le_iff)
  define R6 where "R6 =
    (if diabetesStatus d = ''type1'' \<or> diabetesStatus d = ''type2'' then jadd R5 (lit 12)
     else if diabetesStatus d = ''prediabetes'' then jadd R5 (lit 6)
     else R5)"
  define q6 where "q6 = q5 + diabetesContribution d"
  have b5': "\<bar>q5\<bar> \<le> 17179869184" using b5 by linarith
  have "\<exists>v. R6 = Fin v \<and> \<bar>v - q6\<bar> \<le> 20 / 131072"
    using jadd_lit_err [OF e5 b5', of 12] jadd_lit_err [OF e5 b5', of 6] e5
    unfolding R6_def q6_def diabetesContribution_def r5 lit_ints
    by (simp split: if_splits)
  then obtain r6 where r6: "R6 = Fin r6" and e6: "\<bar>r6 - q6\<bar> \<le> 20 / 131072" by blast
  have b6: "\<bar>q6\<bar> \<le> 11166915022"
    using b5 unfolding q6_def diabetesContribution_def by (auto simp: abs_le_iff)
  define R7 where "R7 =
    (if familyHistory d = ''multiple'' then jadd R6 (lit 15)
     else if familyHistory d = ''parent'' \<or> familyHistory d = ''sibling'' then jadd R6 (lit 8)
     else R6)"
  define q7 where "q7 = q6 + familyContribution d"
  have b6': "\<bar>q6\<bar> \<le> 17179869184" using b6 by linarith
  have "\<exists>v. R7 = Fin v \<and> \<bar>v - q7\<bar> \<le> 21 / 131072"
    using jadd_lit_err [OF e6 b6', of 15] jadd_lit_err [OF e6 b6', of 8] e6
    unfolding R7_def q7_def familyContribution_def r6 lit_ints
    by (simp split: if_splits)
  then obtain r7 where r7: "R7 = Fin r7" and e7: "\<bar>r7 - q7\<bar> \<le> 21 / 131072" by blast
  have b7: "\<bar>q7\<bar> \<le> 11166915037"
    using b6 unfolding q7_def familyContribution_def by (auto simp: abs_le_iff)

  \<comment> \<open>time since the last dose\<close>
  define R8 where "R8 = (if jlt (lit 24) (num (lastDropHours d))
     then jadd R7 (jmul (jsub (num (lastDropHours d)) (lit 24)) (lit (8/10))) else R7)"
  have "\<bar>(nL - 24) - (L - 24)\<bar> \<le> 1 / 131072" using nL(2) by simp
  moreover have "\<bar>L - 24\<bar> \<le> 34359738368" using bL by linarith
  ultimately obtain v2 where v2: "ovf (nL - 24) = Fin v2" and e_v2: "\<bar>v2 - (L - 24)\<bar> \<le> 2 / 131072"
    using ovf_step [of "nL - 24" "L - 24" "1 / 131072"] by auto
  have "\<bar>v2 * (3602879701896397 / 4503599627370496) - (L - 24) * (8/10)\<bar> \<le> 2 / 131072"
    using e_v2 bL unfolding abs_le_iff by (simp only: algebra_simps) linarith
  moreover have b_dose: "\<bar>(L - 24) * (8/10)\<bar> \<le> 1717986938"
    using bL unfolding abs_le_iff by (simp add: field_simps)
  then have "\<bar>(L - 24) * (8/10)\<bar> \<le> 34359738368" by linarith
  ultimately obtain v3 where v3: "ovf (v2 * (3602879701896397 / 4503599627370496)) = Fin v3"
    and e_v3: "\<bar>v3 - (L - 24) * (8/10)\<bar> \<le> 3 / 131072"
    using ovf_step [of "v2 * (3602879701896397 / 4503599627370496)" "(L - 24) * (8/10)" "2 / 131072"]
    by auto
  have "\<exists>v. R8 = Fin v \<and> \<bar>v - (q7 + doseContribution d)\<bar> \<le> 25 / 131072"
  proof (cases "24 < lastDropHours d")
    case True
    have "\<bar>(r7 + v3) - (q7 + (L - 24) * (8/10))\<bar> \<le> 24 / 131072" using e7 e_v3 by linarith
    moreover have "\<bar>q7 + (L - 24) * (8/10)\<bar> \<le> 34359738368" using b7 b_dose by linarith
    ultimately obtain r8 where r8: "ovf (r7 + v3) = Fin r8"
      and e8: "\<bar>r8 - (q7 + (L - 24) * (8/10))\<bar> \<le> 25 / 131072"
      using ovf_step [of "r7 + v3" "q7 + (L - 24) * (8/10)" "24 / 131072"] by auto
    from True have "jlt (lit 24) (num (lastDropHours d))" by (simp add: lit_ints num_less_lits)
    then have "R8 = jadd R7 (jmul (jsub (num (lastDropHours d)) (lit 24)) (lit (8/10)))"
      unfolding R8_def by (rule if_P)
    then have "R8 = Fin r8"
      using v2 v3 r8 by (simp add: r7 jsub_def nL lit_ints lit_fracs_n)
    moreover from True have "doseContribution d = (L - 24) * (8/10)"
      by (simp add: doseContribution_def L_def)
    ultimately show ?thesis using e8 by (simp only:) blast
  next
    case False
    then have "R8 = Fin r7" "doseContribution d = 0"
      by (simp_all add: R8_def r7 lit_ints num_less_lits doseContribution_def)
    with e7 show ?thesis by simp
  qed
  moreover have "riskScore d = R8"
    unfolding riskScore_def Let_def R8_def R7_def R6_def R5_def R4_def R3_def R2_def R1_def ..
  moreover have "rawScore d = q7 + doseContribution d"
    by (simp add: rawScore_def q7_def q6_def q5_def q4_def q3_def)
  ultimately show ?thesis by simp
qed

lemma rawScore_tenths: "\<exists>k::int. rawScore d = of_int k / 10"
proof -
  have "ageContribution d = of_int (max 0 (5 * (age d - 40))) / 10"
    by (simp add: ageContribution_def max_def)
  moreover have "sleepContribution d = of_int (20 * (10 - sleepQuality d)) / 10"
    by (simp add: sleepContribution_def)
  moreover have "stressContribution d = of_int (15 * stressLevel d) / 10"
    by (simp add: stressContribution_def)
  moreover have "activityContribution d = of_int (12 * (10 - physicalActivity d)) / 10"
    by (simp add: activityContribution_def)
  moreover have "bloodPressureContribution d =
      of_int (if 140 < systolicBP d \<or> 90 < diastolicBP d then 80
              else if 130 < systolicBP d \<or> 80 < diastolicBP d then 40 else 0) / 10"
    by (simp add: bloodPressureContribution_def)
  moreover have "diabetesContribution d =
      of_int (if diabetesStatus d = ''type1'' \<or> diabetesStatus d = ''type2'' then 120
              else if diabetesStatus d = ''prediabetes'' then 60 else 0) / 10"
    by (simp add: diabetesContribution_def)
  moreover have "familyContribution d =
      of_int (if familyHistory d = ''multiple'' then 150
              else if familyHistory d = ''parent'' \<or> familyHistory d = ''sibling'' then 80 else 0) / 10"
    by (simp add: familyContribution_def)
  moreover have "doseContribution d =
      of_int (if 24 < lastDropHours d then 8 * (lastDropHours d - 24) else 0) / 10"
    by (simp add: doseContribution_def)
  ultimately have "rawScore d =
    of_int (max 0 (5 * (age d - 40)) + 20 * (10 - sleepQuality d) + 15 * stressLevel d
      + 12 * (10 - physicalActivity d)
      + (if 140 < systolicBP d \<or> 90 < diastolicBP d then 80
         else if 130 < systolicBP d \<or> 80 < diastolicBP d then 40 else 0)
      + (if diabetesStatus d = ''type1'' \<or> diabetesStatus d = ''type2'' then 120
         else if diabetesStatus d = ''prediabetes'' then 60 else 0)
      + (if familyHistory d = ''multiple'' then 150
         else if familyHistory d = ''parent'' \<or> familyHistory d = ''sibling'' then 80 else 0)
      + (if 24 < lastDropHours d then 8 * (lastDropHours d - 24) else 0)) / 10"
    unfolding rawScore_def by (simp only: of_int_add add_divide_distrib)
  then show ?thesis ..
qed

lemma clamp100_tenths: "\<exists>k::int. clamp100 (rawScore d) = of_int k / 10"
proof -
  from rawScore_tenths obtain k :: int where k: "rawScore d = of_int k / 10" ..
  have "clamp100 (of_int k / 10) = of_int (min 1000 (max 0 k)) / 10"
    by (simp add: clamp100_def min_def max_def)
  then have "clamp100 (rawScore d) = of_int (min 1000 (max 0 k)) / 10"
    by (simp only: k)
  then show ?thesis ..
qed

lemma nearest_tenth:
  assumes "\<bar>x - of_int k / 10\<bar> \<le> 1 / 100"
  shows "\<lfloor>x * 10 + 1/2\<rfloor> = k"
proof (rule floor_unique)
  show "of_int k \<le> x * 10 + 1/2" using assms unfolding abs_le_iff by (simp add: field_simps)
  show "x * 10 + 1/2 < of_int k + 1" using assms unfolding abs_le_iff by (simp add: field_simps)
qed

lemma round1_tenth: "round1 (of_int k / 10) = of_int k / 10"
  using nearest_tenth [of "of_int k / 10" k] by (simp add: round1_def)

lemma riskPercentage_error:
  assumes "int32_fields d"
  shows "\<exists>p. riskPercentage d = Fin p \<and> \<bar>p - clamp100 (rawScore d)\<bar> \<le> 25 / 131072
           \<and> 0 \<le> p \<and> p \<le> 100"
proof -
  from riskScore_error [OF assms] obtain r where r: "riskScore d = Fin r"
    and e: "\<bar>r - rawScore d\<bar> \<le> 25 / 131072" by blast
  have "riskPercentage d = Fin (min 100 (max 0 r))"
    unfolding riskPercentage_def r lit_ints by (simp only: Math_max_Fin Math_min_Fin)
  moreover have "\<bar>min 100 (max 0 r) - clamp100 (rawScore d)\<bar> \<le> 25 / 131072"
    using e unfolding clamp100_def abs_le_iff by (auto simp: min_def max_def)
  moreover have "0 \<le> min 100 (max 0 r)" "min 100 (max 0 r) \<le> 100" by simp_all
  ultimately show ?thesis by blast
qed

lemma specRiskPercentage_clamp: "specRiskPercentage d = clamp100 (rawScore d)"
proof -
  from clamp100_tenths obtain k :: int where k: "clamp100 (rawScore d) = of_int k / 10" ..
  show ?thesis unfolding specRiskPercentage_def k by (rule round1_tenth)
qed

lemma clamp100_range: "0 \<le> clamp100 x" "clamp100 x \<le> 100"
  by (simp_all add: clamp100_def)

lemma fixed_percentage_spec:
  assumes "int32_fields d"
  shows "fixedText 1 (riskPercentage d) = Decimal (specRiskPercentage d)"
proof -
  from riskPercentage_error [OF assms] obtain p where p: "riskPercentage d = Fin p"
    and e: "\<bar>p - clamp100 (rawScore d)\<bar> \<le> 25 / 131072" and r: "0 \<le> p" "p \<le> 100" by blast
  from clamp100_tenths obtain k :: int where k: "clamp100 (rawScore d) = of_int k / 10" ..
  have "\<bar>p - of_int k / 10\<bar> \<le> 1 / 100" using e k by simp
  then have "\<lfloor>p * 10 + 1/2\<rfloor> = k" by (rule nearest_tenth)
  then have "fixedText 1 (Fin p) = Decimal (of_int k / 10)"
    by (simp only: fixedText_percent [OF r])
  then show ?thesis by (simp only: p specRiskPercentage_clamp k)
qed

section \<open>The average predicted IOP and the exact formula\<close>

lemma ovf_step_small:
  assumes "\<bar>x - y\<bar> \<le> e" "\<bar>y\<bar> \<le> 64" "e \<le> 1"
  shows "\<exists>v. ovf x = Fin v \<and> \<bar>v - y\<bar> \<le> e + 1 / 1099511627776"
proof -
  have x: "\<bar>x\<bar> \<le> 65" using assms by linarith
  have "(65::rat) \<le> 2 ^ 1000" by simp
  with x have "\<bar>x\<bar> \<le> 2 ^ 1000" by (rule order_trans)
  then have f: "ovf x = Fin (fl x)" by (rule ovf_fin)
  have "\<bar>x\<bar> / 2 ^ 53 \<le> 65 / 2 ^ 53" using x by (intro divide_right_mono) simp_all
  moreover have "65 / 2 ^ 53 + 1 / 2 ^ 53 \<le> (1 / 1099511627776 :: rat)" by simp
  ultimately have "\<bar>fl x - x\<bar> \<le> 1 / 1099511627776" using fl_rel_err [of x] pow2_tiny by linarith
  with assms(1) have "\<bar>fl x - y\<bar> \<le> e + 1 / 1099511627776" by linarith
  with f show ?thesis by simp
qed

lemma iop_value_error:
  assumes p: "\<bar>p - q\<bar> \<le> 25 / 131072" and q: "0 \<le> q" "q \<le> 100"
  shows "\<exists>v. jmul (lit 14) (jadd (lit 1) (jmul (jdiv (Fin p) (lit 100)) (lit (6/10)))) = Fin v
           \<and> \<bar>v - 14 * (1 + (q / 100) * (6/10))\<bar> \<le> 4 / 131072"
proof -
  have "\<bar>p / 100 - q / 100\<bar> \<le> 1 / 524288"
    using p unfolding abs_le_iff by (simp add: field_simps)
  moreover have "\<bar>q / 100\<bar> \<le> 64" using q by simp
  ultimately obtain d1 where d1: "ovf (p / 100) = Fin d1"
    and e1: "\<bar>d1 - q / 100\<bar> \<le> 1 / 524288 + 1 / 1099511627776"
    using ovf_step_small [of "p / 100" "q / 100" "1 / 524288"] by auto
  have "\<bar>d1 * (5404319552844595 / 9007199254740992) - (q / 100) * (6/10)\<bar> \<le> 1 / 524288"
    using e1 q unfolding abs_le_iff by (simp only: algebra_simps) linarith
  moreover have "\<bar>(q / 100) * (6/10)\<bar> \<le> 64" using q by simp
  ultimately obtain d2 where d2: "ovf (d1 * (5404319552844595 / 9007199254740992)) = Fin d2"
    and e2: "\<bar>d2 - (q / 100) * (6/10)\<bar> \<le> 1 / 524288 + 1 / 1099511627776"
    using ovf_step_small [of "d1 * (5404319552844595 / 9007199254740992)" "(q / 100) * (6/10)" "1 / 524288"]
    by auto
  have "\<bar>(1 + d2) - (1 + (q / 100) * (6/10))\<bar> \<le> 1 / 524288 + 1 / 1099511627776"
    using e2 by simp
  moreover have "\<bar>1 + (q / 100) * (6/10)\<bar> \<le> 64" using q unfolding abs_le_iff by (simp add: field_simps)
  ultimately obtain d3 where d3: "ovf (1 + d2) = Fin d3"
    and e3: "\<bar>d3 - (1 + (q / 100) * (6/10))\<bar> \<le> 1 / 524288 + 2 / 1099511627776"
    using ovf_step_small [of "1 + d2" "1 + (q / 100) * (6/10)" "1 / 524288 + 1 / 1099511627776"]
    by auto
  have "\<bar>14 * d3 - 14 * (1 + (q / 100) * (6/10))\<bar> \<le> 14 / 524288 + 28 / 1099511627776"
    using e3 unfolding abs_le_iff by (simp only: algebra_simps) linarith
  moreover have "\<bar>14 * (1 + (q / 100) * (6/10))\<bar> \<le> 64" using q unfolding abs_le_iff by (simp add: field_simps)
  ultimately obtain d4 where d4: "ovf (14 * d3) = Fin d4"
    and e4: "\<bar>d4 - 14 * (1 + (q / 100) * (6/10))\<bar>
      \<le> (14 / 524288 + 28 / 1099511627776) + 1 / 1099511627776"
    using ovf_step_small [of "14 * d3" "14 * (1 + (q / 100) * (6/10))" "14 / 524288 + 28 / 1099511627776"]
    by auto
  from e4 have "\<bar>d4 - 14 * (1 + (q / 100) * (6/10))\<bar> \<le> 4 / 131072" by linarith
  moreover have "jmul (lit 14) (jadd (lit 1) (jmul (jdiv (Fin p) (lit 100)) (lit (6/10)))) = Fin d4"
    using d1 d2 d3 d4 by (simp add: lit_ints lit_fracs_n)
  ultimately show ?thesis by blast
qed

text \<open>
  Rounding a value \<open>y\<close> that is close to a multiple \<open>x\<close> of \<open>1/250\<close>: the result is
  that of \<open>x\<close>, except that it may be one lower when \<open>x\<close> lies exactly halfway.
\<close>

lemma round_near_250:
  fixes x y :: rat and N :: int
  assumes x: "x = of_int N / 250" and y: "\<bar>y - x\<bar> < 1 / 250"
  shows "\<lfloor>y + 1/2\<rfloor> = \<lfloor>x + 1/2\<rfloor> \<or> (x + 1/2 \<in> \<int> \<and> \<lfloor>y + 1/2\<rfloor> = \<lfloor>x + 1/2\<rfloor> - 1)"
proof -
  define M where "M = N + 125"
  define q r where "q = M div 250" and "r = M mod 250"
  have M: "M = 250 * q + r" and r: "0 \<le> r" "r < 250" by (simp_all add: q_def r_def)
  have "x + 1/2 = of_int M / 250" by (simp add: x M_def)
  also have "\<dots> = of_int q + of_int r / 250" by (simp add: M)
  finally have xh: "x + 1/2 = of_int q + of_int r / 250" .
  have r': "(0::rat) \<le> of_int r" "(of_int r :: rat) \<le> 249"
  proof -
    from r have "r \<le> 249" by simp
    then have "(of_int r :: rat) \<le> of_int 249" by (simp only: of_int_le_iff)
    then show "(of_int r :: rat) \<le> 249" by simp
    show "(0::rat) \<le> of_int r" using r by simp
  qed
  have fx: "\<lfloor>x + 1/2\<rfloor> = q"
    by (rule floor_unique) (use xh r' in linarith)+
  from y have y1: "x - 1 / 250 < y" and y2: "y < x + 1 / 250" by linarith+
  show ?thesis
  proof (cases "r = 0")
    case True
    then have xq: "x + 1/2 = of_int q" using xh by simp
    then have int: "x + 1/2 \<in> \<int>" by simp
    show ?thesis
    proof (cases "x \<le> y")
      case True
      have "\<lfloor>y + 1/2\<rfloor> = q" by (rule floor_unique) (use xq True y2 in linarith)+
      then show ?thesis by (simp add: fx)
    next
      case False
      have "\<lfloor>y + 1/2\<rfloor> = q - 1" by (rule floor_unique) (use xq False y1 in \<open>simp; linarith\<close>)+
      then show ?thesis using int by (simp add: fx)
    qed
  next
    case False
    with r have "1 \<le> r" by simp
    then have "(of_int 1 :: rat) \<le> of_int r" by (simp only: of_int_le_iff)
    then have r1: "(1::rat) \<le> of_int r" by simp
    have "\<lfloor>y + 1/2\<rfloor> = q" by (rule floor_unique) (use xh r1 r' y1 y2 in linarith)+
    then show ?thesis by (simp add: fx)
  qed
qed

text \<open>The value that is formatted, for 32-bit fields: finite and close to the exact one.\<close>

lemma iop_value_int32:
  assumes "int32_fields d"
  shows "\<exists>v. jmul (lit 14) (jadd (lit 1) (jmul (jdiv (riskPercentage d) (lit 100)) (lit (6/10)))) = Fin v
           \<and> \<bar>v - 14 * (1 + (specRiskPercentage d / 100) * (6/10))\<bar> \<le> 4 / 131072
           \<and> 0 \<le> v \<and> v \<le> 100"
proof -
  define q where "q = specRiskPercentage d"
  from riskPercentage_error [OF assms] obtain p where p: "riskPercentage d = Fin p"
    and e: "\<bar>p - q\<bar> \<le> 25 / 131072"
    unfolding q_def specRiskPercentage_clamp by blast
  have q: "0 \<le> q" "q \<le> 100" by (simp_all add: q_def specRiskPercentage_clamp clamp100_range)
  from iop_value_error [OF e q] obtain v
    where v: "jmul (lit 14) (jadd (lit 1) (jmul (jdiv (Fin p) (lit 100)) (lit (6/10)))) = Fin v"
      and vz: "\<bar>v - 14 * (1 + (q / 100) * (6/10))\<bar> \<le> 4 / 131072" by blast
  have "14 \<le> 14 * (1 + (q / 100) * (6/10))" "14 * (1 + (q / 100) * (6/10)) \<le> 224 / 10"
    using q by (simp_all add: field_simps)
  with vz have "0 \<le> v" "v \<le> 100" by linarith+
  with v vz show ?thesis unfolding p q_def by blast
qed

lemma average_iop_field:
  "calculateRealTimeRisk d = Inr r \<Longrightarrow>
   average_predicted_iop r = parseFloat (fixedText 1
     (jmul (lit 14) (jadd (lit 1) (jmul (jdiv (riskPercentage d) (lit 100)) (lit (6/10))))))"
  by (auto simp: calculateRealTimeRisk_Inr)

lemma calculateRealTimeRisk_returns: "\<exists>r. calculateRealTimeRisk d = Inr r"
  by (simp add: calculateRealTimeRisk_Inr)

section \<open>The result is well defined\<close>

lemma level_message_template: "riskLevelMessage p \<in> set riskTemplates"
  by (simp add: riskLevelMessage_def riskTemplates_def)

lemma returned_percentage_range:
  "parseFloat (fixedText 1 (riskPercentage d)) = NaN
   \<or> jle (lit 0) (parseFloat (fixedText 1 (riskPercentage d)))
      \<and> jle (parseFloat (fixedText 1 (riskPercentage d))) (lit 100)"
proof -
  from riskPercentage_cases [of d] show ?thesis
  proof (elim disjE exE conjE)
    assume "riskPercentage d = NaN"
    then show ?thesis by (simp add: fixedText_def)
  next
    fix v assume v: "riskPercentage d = Fin v" "0 \<le> v" "v \<le> 100"
    define n where "n = \<lfloor>v * 10 + 1/2\<rfloor>"
    have "(of_int 0 :: rat) \<le> v * 10 + 1/2" using v by simp
    then have "(0::int) \<le> n" unfolding n_def by (simp only: le_floor_iff)
    then have "(of_int 0 :: rat) \<le> of_int n" by (simp only: of_int_le_iff)
    then have lo: "(0::rat) \<le> of_int n / 10" by simp
    have "v * 10 + 1/2 < (of_int 1001 :: rat)" using v by simp
    then have "n < 1001" unfolding n_def by (simp only: floor_less_iff)
    then have "n \<le> 1000" by simp
    then have "(of_int n :: rat) \<le> of_int 1000" by (simp only: of_int_le_iff)
    then have hi: "of_int n / 10 \<le> (100 :: rat)" by simp
    have "parseFloat (fixedText 1 (riskPercentage d)) = ovf (of_int n / 10)"
      by (simp only: v(1) fixedText_percent [OF v(2,3)] parseFloat.simps n_def)
    with ovf_mono [OF lo] ovf_mono [OF hi] show ?thesis unfolding lit_def by simp
  qed
qed

lemma returned_percentage_not_NaN:
  assumes "int32_fields d"
  shows "parseFloat (fixedText 1 (riskPercentage d)) \<noteq> NaN"
  unfolding fixed_percentage_spec [OF assms] by (simp add: ovf_not_NaN)

section \<open>Values on the sample records\<close>

lemma scenario_percentage: "riskPercentage scenario = Fin 23"
  by (simp add: scenario_def riskPercentage_def riskScore_def op_defs fl_eval)

lemma scenario_value:
  "calculateRealTimeRisk scenario =
     Inr \<lparr> risk_percentage = Fin 23, risk_level = ''moderate'',
           average_predicted_iop = lit (159 / 10),
           message = ''Elevated risk detected. Consider adjusting treatment schedule or medication.'' \<rparr>"
proof -
  have "parseFloat (fixedText 1 (Fin 23)) = Fin 23"
    by (simp add: op_defs fl_eval)
  moreover have "riskLevelMessage (Fin 23) =
      (''moderate'', ''Elevated risk detected. Consider adjusting treatment schedule or medication.'')"
    by (simp add: riskLevelMessage_def op_defs fl_eval)
  moreover have "parseFloat (fixedText 1
      (jmul (lit 14) (jadd (lit 1) (jmul (jdiv (Fin 23) (lit 100)) (lit (6/10)))))) = lit (159 / 10)"
    by (simp add: op_defs fl_eval)
  ultimately show ?thesis
    by (simp only: calculateRealTimeRisk_Inr scenario_percentage fst_conv snd_conv)
qed

lemma boundary_percentage:
  "riskPercentage boundaryPatient = Fin (5629499534213119 / 281474976710656)"
  by (simp add: boundaryPatient_def riskPercentage_def riskScore_def op_defs fl_eval)

lemma boundary_value:
  "calculateRealTimeRisk boundaryPatient =
     Inr \<lparr> risk_percentage = Fin 20, risk_level = ''low'',
           average_predicted_iop = lit (157 / 10),
           message = ''Current treatment appears to be working effectively. Continue current regimen.'' \<rparr>"
proof -
  have "parseFloat (fixedText 1 (Fin (5629499534213119 / 281474976710656))) = Fin 20"
    by (simp add: op_defs fl_eval)
  moreover have "riskLevelMessage (Fin (5629499534213119 / 281474976710656)) =
      (''low'', ''Current treatment appears to be working effectively. Continue current regimen.'')"
    by (simp add: riskLevelMessage_def op_defs fl_eval)
  moreover have "parseFloat (fixedText 1
      (jmul (lit 14) (jadd (lit 1)
        (jmul (jdiv (Fin (5629499534213119 / 281474976710656)) (lit 100)) (lit (6/10))))))
      = lit (157 / 10)"
    by (simp add: op_defs fl_eval)
  ultimately show ?thesis
    by (simp only: calculateRealTimeRisk_Inr boundary_percentage fst_conv snd_conv)
qed

lemma tie_percentage: "riskPercentage tiePatient = Fin (175 / 2)"
  by (simp add: tiePatient_def riskPercentage_def riskScore_def op_defs fl_eval)

lemma tie_value:
  "calculateRealTimeRisk tiePatient =
     Inr \<lparr> risk_percentage = Fin (175 / 2), risk_level = ''critical'',
           average_predicted_iop = lit (213 / 10),
           message = ''Critical risk level. Emergency ophthalmology consultation required.'' \<rparr>"
proof -
  have "parseFloat (fixedText 1 (Fin (175 / 2))) = Fin (175 / 2)"
    by (simp add: op_defs fl_eval)
  moreover have "riskLevelMessage (Fin (175 / 2)) =
      (''critical'', ''Critical risk level. Emergency ophthalmology consultation required.'')"
    by (simp add: riskLevelMessage_def op_defs fl_eval)
  moreover have "parseFloat (fixedText 1
      (jmul (lit 14) (jadd (lit 1) (jmul (jdiv (Fin (175 / 2)) (lit 100)) (lit (6/10))))))
      = lit (213 / 10)"
    by (simp add: op_defs fl_eval)
  ultimately show ?thesis
    by (simp only: calculateRealTimeRisk_Inr tie_percentage fst_conv snd_conv)
qed

lemma outOfRange_percentage: "riskPercentage outOfRangePatient = Fin 0"
  by (simp add: outOfRangePatient_def riskPercentage_def riskScore_def op_defs fl_eval)

lemma outOfRange_value:
  "calculateRealTimeRisk outOfRangePatient =
     Inr \<lparr> risk_percentage = Fin 0, risk_level = ''low'', average_predicted_iop = Fin 14,
           message = ''Current treatment appears to be working effectively. Continue current regimen.'' \<rparr>"
proof -
  have "parseFloat (fixedText 1 (Fin 0)) = Fin 0"
    by (simp add: op_defs fl_eval)
  moreover have "riskLevelMessage (Fin 0) =
      (''low'', ''Current treatment appears to be working effectively. Continue current regimen.'')"
    by (simp add: riskLevelMessage_def op_defs fl_eval)
  moreover have "parseFloat (fixedText 1
      (jmul (lit 14) (jadd (lit 1) (jmul (jdiv (Fin 0) (lit 100)) (lit (6/10)))))) = Fin 14"
    by (simp add: op_defs fl_eval)
  ultimately show ?thesis
    by (simp only: calculateRealTimeRisk_Inr outOfRange_percentage fst_conv snd_conv)
qed

lemma NaN_value:
  assumes "riskPercentage d = NaN"
  shows "calculateRealTimeRisk d =
     Inr \<lparr> risk_percentage = NaN, risk_level = ''critical'', average_predicted_iop = NaN,
           message = ''Critical risk level. Emergency ophthalmology consultation required.'' \<rparr>"
  unfolding calculateRealTimeRisk_Inr assms
  by (simp add: riskLevelMessage_def fixedText_def lit_ints lit_fracs_n)


lemma overflow2_percentage: "riskPercentage overflowPatient2 = NaN"
  by (simp add: overflowPatient2_def riskPercentage_def riskScore_def op_defs fl_eval)


lemma overflow2_fields:
  "num (sleepQuality overflowPatient2) = Fin (- (2 ^ 1023))"
  "num (physicalActivity overflowPatient2) = Fin (7 * 2 ^ 1021)"
  by (simp_all add: overflowPatient2_def op_defs fl_eval)

lemma percentage_pair:
  assumes "ascending (riskScore d) (riskScore d')"
  shows "\<exists>r r'. calculateRealTimeRisk d = Inr r \<and> calculateRealTimeRisk d' = Inr r'
     \<and> \<not> jlt (risk_percentage r') (risk_percentage r)
     \<and> (int32_fields d \<and> int32_fields d' \<longrightarrow> jle (risk_percentage r) (risk_percentage r'))"
proof -
  define a b where "a = parseFloat (fixedText 1 (riskPercentage d))"
    and "b = parseFloat (fixedText 1 (riskPercentage d'))"
  have asc: "ascending a b" unfolding a_def b_def by (rule percentage_ascending [OF assms])
  have 1: "\<not> jlt b a" by (rule ascending_not_less [OF asc])
  have 2: "jle a b" if "int32_fields d \<and> int32_fields d'"
    using asc returned_percentage_not_NaN [of d] returned_percentage_not_NaN [of d'] that
    unfolding a_def b_def ascending_def by blast
  have "risk_percentage \<lparr> risk_percentage = a, risk_level = l, average_predicted_iop = i,
      message = m \<rparr> = a" for a l i m by simp
  then show ?thesis
    unfolding calculateRealTimeRisk_Inr a_def [symmetric] b_def [symmetric] using 1 2 by simp
qed

section \<open>C1: the returned percentage\<close>

text \<open>
  C1. The returned risk percentage is the sum of the eight contributions of the
  specification, computed exactly, clamped to \<open>[0, 100]\<close> and rounded to one decimal:
  it is the number nearest to that decimal value, and the computation returns without
  an error. Proved for every record whose integer fields are 32-bit values.
\<close>

theorem returned_percentage_is_spec:
  assumes "int32_fields d"
  shows "\<exists>r. calculateRealTimeRisk d = Inr r
           \<and> risk_percentage r = parseFloat (Decimal (specRiskPercentage d))"
  unfolding calculateRealTimeRisk_Inr fixed_percentage_spec [OF assms] by simp

theorem returned_percentage_is_spec_witness:
  "int32_fields scenario
   \<and> (\<exists>r. calculateRealTimeRisk scenario = Inr r
          \<and> risk_percentage r = parseFloat (Decimal (specRiskPercentage scenario)))"
proof -
  have "int32_fields scenario" by (simp add: int32_fields_def int32_def scenario_def)
  with returned_percentage_is_spec [of scenario] show ?thesis by simp
qed

section \<open>C2: the risk level at a threshold\<close>

text \<open>
  C2. The claim: the returned level is the threshold table applied to the risk
  percentage, exactly at the boundaries, so that a percentage of 20.0 is moderate. The
  comparisons of lines 187 to 202 are those of the table, but they read the score before
  it is rounded. For the record \<open>boundaryPatient\<close>, whose fields are all within their
  documented ranges, the exact score is 20; the program accumulates 6,
  16.799999999999997 and 19.999999999999996, and returns the level low together with
  the percentage 20.0.
\<close>

theorem boundary_counterexample:
  "rawScore boundaryPatient = 20
   \<and> specRiskPercentage boundaryPatient = 20
   \<and> specRiskLevel 20 = ''moderate''
   \<and> riskScore boundaryPatient = Fin (5629499534213119 / 281474976710656)
   \<and> calculateRealTimeRisk boundaryPatient =
       Inr \<lparr> risk_percentage = Fin 20, risk_level = ''low'',
             average_predicted_iop = lit (157 / 10),
             message = ''Current treatment appears to be working effectively. Continue current regimen.'' \<rparr>"
proof -
  have r: "rawScore boundaryPatient = 20"
    by (simp add: rawScore_def boundaryPatient_def ageContribution_def sleepContribution_def
        stressContribution_def activityContribution_def bloodPressureContribution_def
        diabetesContribution_def familyContribution_def doseContribution_def)
  have "specRiskPercentage boundaryPatient = 20"
    by (simp add: specRiskPercentage_def r clamp100_def round1_def floor_rat_numeral_div)
  moreover have "specRiskLevel 20 = ''moderate''" by (simp add: specRiskLevel_def)
  moreover have "riskScore boundaryPatient = Fin (5629499534213119 / 281474976710656)"
    by (simp add: boundaryPatient_def riskScore_def op_defs fl_eval)
  ultimately show ?thesis using r boundary_value by simp
qed

section \<open>C3: the average predicted IOP\<close>

text \<open>
  C3, as stated: the returned average predicted IOP is \<open>14 * (1 + (p / 100) * 0.6)\<close>
  rounded to one decimal. For \<open>tiePatient\<close> the percentage is 87.5 and the exact value is
  21.35, which rounds to 21.4; the program computes 21.349999999999998 and returns 21.3.
\<close>

theorem tie_counterexample:
  "calculateRealTimeRisk tiePatient =
     Inr \<lparr> risk_percentage = Fin (175 / 2), risk_level = ''critical'',
           average_predicted_iop = lit (213 / 10),
           message = ''Critical risk level. Emergency ophthalmology consultation required.'' \<rparr>
   \<and> specAverageIop (175 / 2) = 214 / 10
   \<and> lit (213 / 10) \<noteq> parseFloat (Decimal (specAverageIop (175 / 2)))"
proof -
  have s: "specAverageIop (175 / 2) = 214 / 10"
    by (simp add: specAverageIop_def round1_def)
  have "lit (213 / 10) \<noteq> parseFloat (Decimal (specAverageIop (175 / 2)))"
    unfolding s by (simp add: op_defs fl_eval)
  with s tie_value show ?thesis by (simp only: simp_thms)
qed

text \<open>
  C3, amended: the returned average predicted IOP is the exact value of
  \<open>14 * (1 + (p / 100) * 0.6)\<close> rounded to one decimal, \<open>p\<close> being the one-decimal risk
  percentage, except when that exact value lies exactly halfway between two one-decimal
  values: then the result may be the lower of the two. Proved for every record whose
  integer fields are 32-bit values.
\<close>

theorem average_iop_spec_off_ties:
  assumes "int32_fields d"
  shows "\<exists>r. calculateRealTimeRisk d = Inr r
     \<and> (average_predicted_iop r = parseFloat (Decimal (specAverageIop (specRiskPercentage d)))
        \<or> (14 * (1 + (specRiskPercentage d / 100) * (6/10)) * 10 + 1/2 \<in> \<int>
           \<and> average_predicted_iop r
               = parseFloat (Decimal (specAverageIop (specRiskPercentage d) - 1 / 10))))"
proof -
  define q where "q = specRiskPercentage d"
  define z where "z = 14 * (1 + (q / 100) * (6/10))"
  from calculateRealTimeRisk_returns obtain r where r: "calculateRealTimeRisk d = Inr r" ..
  from iop_value_int32 [OF assms] obtain v
    where v: "jmul (lit 14) (jadd (lit 1) (jmul (jdiv (riskPercentage d) (lit 100)) (lit (6/10)))) = Fin v"
      and vz: "\<bar>v - z\<bar> \<le> 4 / 131072" and v0: "0 \<le> v" "v \<le> 100"
    unfolding z_def q_def by blast
  from clamp100_tenths obtain k :: int where k: "clamp100 (rawScore d) = of_int k / 10" ..
  have qk: "q = of_int k / 10" by (simp add: q_def specRiskPercentage_clamp k)
  have x: "z * 10 = of_int (35000 + 21 * k) / 250" by (simp add: z_def qk field_simps)
  have y: "\<bar>v * 10 - z * 10\<bar> < 1 / 250" using vz by linarith
  have iop: "average_predicted_iop r = parseFloat (Decimal (of_int \<lfloor>v * 10 + 1/2\<rfloor> / 10))"
    by (simp only: average_iop_field [OF r] v fixedText_percent [OF v0])
  have spec: "specAverageIop q = of_int \<lfloor>z * 10 + 1/2\<rfloor> / 10"
    by (simp add: specAverageIop_def round1_def z_def)
  from round_near_250 [OF x y]
  have "average_predicted_iop r = parseFloat (Decimal (specAverageIop q))
        \<or> (z * 10 + 1/2 \<in> \<int>
           \<and> average_predicted_iop r = parseFloat (Decimal (specAverageIop q - 1 / 10)))"
  proof
    assume "\<lfloor>v * 10 + 1/2\<rfloor> = \<lfloor>z * 10 + 1/2\<rfloor>"
    then have "average_predicted_iop r = parseFloat (Decimal (specAverageIop q))"
      by (simp only: iop spec)
    then show ?thesis ..
  next
    assume a: "z * 10 + 1/2 \<in> \<int> \<and> \<lfloor>v * 10 + 1/2\<rfloor> = \<lfloor>z * 10 + 1/2\<rfloor> - 1"
    then have f: "\<lfloor>v * 10 + 1/2\<rfloor> = \<lfloor>z * 10 + 1/2\<rfloor> - 1" ..
    have "of_int \<lfloor>v * 10 + 1/2\<rfloor> / 10 = specAverageIop q - 1 / 10"
      unfolding spec f by (simp add: diff_divide_distrib)
    then have "average_predicted_iop r = parseFloat (Decimal (specAverageIop q - 1 / 10))"
      by (simp only: iop)
    with a show ?thesis by blast
  qed
  with r show ?thesis unfolding z_def q_def by blast
qed

theorem average_iop_spec_off_ties_witness:
  "int32_fields tiePatient
   \<and> (\<exists>r. calculateRealTimeRisk tiePatient = Inr r
     \<and> (average_predicted_iop r = parseFloat (Decimal (specAverageIop (specRiskPercentage tiePatient)))
        \<or> (14 * (1 + (specRiskPercentage tiePatient / 100) * (6/10)) * 10 + 1/2 \<in> \<int>
           \<and> average_predicted_iop r
               = parseFloat (Decimal (specAverageIop (specRiskPercentage tiePatient) - 1 / 10)))))"
proof -
  have "int32_fields tiePatient" by (simp add: int32_fields_def int32_def tiePatient_def)
  with average_iop_spec_off_ties [of tiePatient] show ?thesis by simp
qed

section \<open>C4: the documented scenario\<close>

text \<open>
  C4. For age 50, male, sleepQuality 7, stressLevel 4, physicalActivity 5, no diabetes,
  blood pressure 120/80, no family history, no medication and lastDropHours 24 the risk
  computation returns risk percentage 23.0, risk level moderate and average predicted
  IOP 15.9 (the number written \<open>15.9\<close>).
\<close>

theorem scenario_result:
  "calculateRealTimeRisk scenario =
     Inr \<lparr> risk_percentage = Fin 23, risk_level = ''moderate'',
           average_predicted_iop = lit (159 / 10),
           message = ''Elevated risk detected. Consider adjusting treatment schedule or medication.'' \<rparr>"
  by (rule scenario_value)

section \<open>C5: monotonicity in stress and sleep\<close>

text \<open>
  C5. With all other fields fixed, a larger stressLevel never gives a smaller risk
  percentage, and a smaller sleepQuality never gives a smaller risk percentage: the
  second percentage is not below the first, and for 32-bit fields, where both are
  numbers, the first is at most the second.
\<close>

theorem risk_monotone:
  "(stressLevel d \<le> s \<longrightarrow>
      (\<exists>r r'. calculateRealTimeRisk d = Inr r
         \<and> calculateRealTimeRisk (d\<lparr> stressLevel := s \<rparr>) = Inr r'
         \<and> \<not> jlt (risk_percentage r') (risk_percentage r)
         \<and> (int32_fields d \<and> int32 s \<longrightarrow> jle (risk_percentage r) (risk_percentage r'))))
   \<and> (q \<le> sleepQuality d \<longrightarrow>
      (\<exists>r r'. calculateRealTimeRisk d = Inr r
         \<and> calculateRealTimeRisk (d\<lparr> sleepQuality := q \<rparr>) = Inr r'
         \<and> \<not> jlt (risk_percentage r') (risk_percentage r)
         \<and> (int32_fields d \<and> int32 q \<longrightarrow> jle (risk_percentage r) (risk_percentage r'))))"
proof -
  have s: "int32_fields (d\<lparr> stressLevel := s \<rparr>)" if "int32_fields d \<and> int32 s"
    using that by (simp add: int32_fields_def)
  have q: "int32_fields (d\<lparr> sleepQuality := q \<rparr>)" if "int32_fields d \<and> int32 q"
    using that by (simp add: int32_fields_def)
  show ?thesis
    using percentage_pair [OF riskScore_stress_ascending, of d s]
      percentage_pair [OF riskScore_sleep_ascending, of q d] s q
    by blast
qed

theorem risk_monotone_witness:
  "stressLevel scenario \<le> 9 \<and> 2 \<le> sleepQuality scenario
   \<and> int32_fields scenario \<and> int32 9 \<and> int32 2
   \<and> (\<exists>r r'. calculateRealTimeRisk scenario = Inr r
         \<and> calculateRealTimeRisk (scenario\<lparr> stressLevel := 9 \<rparr>) = Inr r'
         \<and> \<not> jlt (risk_percentage r') (risk_percentage r)
         \<and> jle (risk_percentage r) (risk_percentage r'))
   \<and> (\<exists>r r'. calculateRealTimeRisk scenario = Inr r
         \<and> calculateRealTimeRisk (scenario\<lparr> sleepQuality := 2 \<rparr>) = Inr r'
         \<and> \<not> jlt (risk_percentage r') (risk_percentage r)
         \<and> jle (risk_percentage r) (risk_percentage r'))"
proof -
  have "stressLevel scenario \<le> 9" "2 \<le> sleepQuality scenario" "int32_fields scenario"
    "int32 9" "int32 2"
    by (simp_all add: scenario_def int32_fields_def int32_def)
  with risk_monotone [of scenario 9 2] show ?thesis by simp
qed

section \<open>C6: the result is well defined\<close>

text \<open>
  C6, as stated: for every record with finite numeric fields the risk computation
  returns a well-defined assessment. The fields of \<open>overflowPatient2\<close> are finite
  numbers; the sleep term overflows to \<open>Infinity\<close> and the activity term to
  \<open>-Infinity\<close>, their sum is NaN, and the result carries NaN as its risk percentage,
  which is not a value between 0 and 100.
\<close>

theorem overflow_percentage_counterexample:
  "num (sleepQuality overflowPatient2) = Fin (- (2 ^ 1023))
   \<and> num (physicalActivity overflowPatient2) = Fin (7 * 2 ^ 1021)
   \<and> calculateRealTimeRisk overflowPatient2 =
       Inr \<lparr> risk_percentage = NaN, risk_level = ''critical'', average_predicted_iop = NaN,
             message = ''Critical risk level. Emergency ophthalmology consultation required.'' \<rparr>
   \<and> \<not> jle (lit 0) NaN \<and> \<not> jle NaN (lit 100)"
  using overflow2_fields NaN_value [OF overflow2_percentage] by (simp add: lit_ints)

text \<open>
  C6, amended: the risk computation raises no error. For every record it returns an
  assessment whose level and message are one of the four fixed pairs and whose risk
  percentage is NaN or lies between 0 and 100; for every record whose integer fields are
  32-bit values, negative and out-of-range values included, the risk percentage lies
  between 0 and 100.
\<close>

theorem risk_result_well_defined:
  "\<exists>r. calculateRealTimeRisk d = Inr r
     \<and> (risk_level r, message r) \<in> set riskTemplates
     \<and> (risk_percentage r = NaN
        \<or> jle (lit 0) (risk_percentage r) \<and> jle (risk_percentage r) (lit 100))
     \<and> (int32_fields d \<longrightarrow>
          jle (lit 0) (risk_percentage r) \<and> jle (risk_percentage r) (lit 100))"
  using returned_percentage_range [of d] returned_percentage_not_NaN [of d]
    level_message_template [of "riskPercentage d"]
  by (auto simp: calculateRealTimeRisk_Inr)

theorem risk_result_well_defined_witness:
  "int32_fields outOfRangePatient
   \<and> (\<exists>r. calculateRealTimeRisk outOfRangePatient = Inr r
         \<and> (risk_level r, message r) \<in> set riskTemplates
         \<and> jle (lit 0) (risk_percentage r) \<and> jle (risk_percentage r) (lit 100))"
proof -
  have "int32_fields outOfRangePatient"
    by (simp add: int32_fields_def int32_def outOfRangePatient_def)
  with risk_result_well_defined [of outOfRangePatient] show ?thesis by blast
qed

section \<open>C9: fields that are never read\<close>

text \<open>
  C9. Two records that differ only in gender, bloodSugar and currentMedications get the
  same result: the same risk percentage, risk level, average predicted IOP and message.
\<close>

theorem unused_fields_irrelevant:
  "calculateRealTimeRisk (d\<lparr> gender := g, bloodSugar := b, currentMedications := m \<rparr>)
     = calculateRealTimeRisk d"
  by (simp add: calculateRealTimeRisk_def riskPercentage_def riskScore_def Let_def cong: if_cong)

section \<open>C10: range of the average predicted IOP\<close>




section \<open>The forecast has one entry per hour\<close>

lemma hourlyPredictions_length: "length (hourlyPredictions curve d) = 24"
  by (simp add: hourlyPredictions_def)

lemma hourlyPredictions_nth:
  "i < 24 \<Longrightarrow> hourlyPredictions curve d ! i = predictHour curve d i"
  by (simp add: hourlyPredictions_def del: upt_Suc)

lemma hourlyPredictions_hours: "map hour (hourlyPredictions curve d) = [0..<24]"
proof -
  have "map hour (hourlyPredictions curve d) = map (\<lambda>h. h) [0..<24]"
    unfolding hourlyPredictions_def map_map
    by (rule map_cong) (simp_all add: predictHour_def Let_def)
  then show ?thesis by simp
qed

text \<open>
  C7. For every record, whatever its lastDropHours, and for every curve the forecast has
  exactly 24 entries, and their hours are 0 to 23 in this order, without duplicates or
  gaps.
\<close>

theorem forecast_has_24_hours:
  "length (predictions (computeForecast curve fmt d)) = 24
   \<and> map hour (predictions (computeForecast curve fmt d)) = [0..<24]
   \<and> distinct (map hour (predictions (computeForecast curve fmt d)))"
  by (simp add: computeForecast_def Let_def hourlyPredictions_length hourlyPredictions_hours
      del: upt_Suc)


section \<open>Peak, trough, average and the optimal hour\<close>

text \<open>The scan returns the first entry with the least value, or keeps \<open>best\<close>.\<close>

lemma scanMin_spec:
  "(let m = Min (insert bv (predicted_iop ` set ps))
    in if bv = m then scanMin best bv ps = best
       else \<exists>i < length ps. scanMin best bv ps = hour (ps ! i) \<and> predicted_iop (ps ! i) = m
              \<and> (\<forall>j < i. m < predicted_iop (ps ! j)))"
proof (induction ps arbitrary: best bv)
  case Nil
  then show ?case by simp
next
  case (Cons p ps)
  define vp where "vp = predicted_iop p"
  define m where "m = Min (insert bv (predicted_iop ` set (p # ps)))"
  have fin: "finite (predicted_iop ` set ps)" by simp
  show ?case
  proof (cases "vp < bv")
    case True
    define m' where "m' = Min (insert vp (predicted_iop ` set ps))"
    have mm: "m = m'"
    proof -
      have "m = min bv m'" unfolding m_def m'_def vp_def by simp
      moreover have "m' \<le> vp" unfolding m'_def by simp
      ultimately show ?thesis using True by (simp add: min_def)
    qed
    have ne: "bv \<noteq> m" using True mm unfolding m'_def
      by (metis Min_le finite_insert fin insertI1 not_le)
    have s: "scanMin best bv (p # ps) = scanMin (hour p) vp ps" using True by (simp add: vp_def)
    from Cons.IH [of vp "hour p"] have IH:
      "if vp = m' then scanMin (hour p) vp ps = hour p
       else \<exists>i < length ps. scanMin (hour p) vp ps = hour (ps ! i) \<and> predicted_iop (ps ! i) = m'
              \<and> (\<forall>j < i. m' < predicted_iop (ps ! j))"
      by (simp add: Let_def m'_def)
    have "\<exists>i < length (p # ps). scanMin best bv (p # ps) = hour ((p # ps) ! i)
            \<and> predicted_iop ((p # ps) ! i) = m \<and> (\<forall>j < i. m < predicted_iop ((p # ps) ! j))"
    proof (cases "vp = m'")
      case True
      with IH s mm show ?thesis by (intro exI [of _ 0]) (simp add: vp_def)
    next
      case False
      with IH obtain i where i: "i < length ps" "scanMin (hour p) vp ps = hour (ps ! i)"
        "predicted_iop (ps ! i) = m'" "\<forall>j < i. m' < predicted_iop (ps ! j)" by auto
      have lt: "m' < vp" using False unfolding m'_def
        by (metis Min_le finite_insert fin insertI1 le_neq_trans)
      show ?thesis
      proof (intro exI [of _ "Suc i"] conjI allI impI)
        show "Suc i < length (p # ps)" using i(1) by simp
        show "scanMin best bv (p # ps) = hour ((p # ps) ! Suc i)" using s i(2) by simp
        show "predicted_iop ((p # ps) ! Suc i) = m" using i(3) mm by simp
        fix j assume "j < Suc i"
        then show "m < predicted_iop ((p # ps) ! j)"
          using i(4) lt mm by (cases j) (simp_all add: vp_def)
      qed
    qed
    then show ?thesis unfolding Let_def m_def [symmetric] using ne by (simp only: if_False)
  next
    case False
    define m' where "m' = Min (insert bv (predicted_iop ` set ps))"
    have mm: "m = m'"
    proof -
      have "insert bv (predicted_iop ` set (p # ps)) = insert (predicted_iop p) (insert bv (predicted_iop ` set ps))"
        by auto
      then have "m = min vp m'" unfolding m_def m'_def vp_def by simp
      moreover have "m' \<le> bv" unfolding m'_def by simp
      ultimately show ?thesis using False by (simp add: min_def)
    qed
    have s: "scanMin best bv (p # ps) = scanMin best bv ps" using False by (simp add: vp_def)
    from Cons.IH [of bv best] have IH:
      "if bv = m' then scanMin best bv ps = best
       else \<exists>i < length ps. scanMin best bv ps = hour (ps ! i) \<and> predicted_iop (ps ! i) = m'
              \<and> (\<forall>j < i. m' < predicted_iop (ps ! j))"
      by (simp add: Let_def m'_def)
    show ?thesis
    proof (cases "bv = m'")
      case True
      with IH have "scanMin best bv (p # ps) = best" using s by simp
      then show ?thesis unfolding Let_def m_def [symmetric] using True mm by simp
    next
      case ne: False
      with IH obtain i where i: "i < length ps" "scanMin best bv ps = hour (ps ! i)"
        "predicted_iop (ps ! i) = m'" "\<forall>j < i. m' < predicted_iop (ps ! j)" by auto
      have "m' \<le> bv" unfolding m'_def by simp
      with ne have lt: "m' < vp" using False by simp
      have "\<exists>i < length (p # ps). scanMin best bv (p # ps) = hour ((p # ps) ! i)
            \<and> predicted_iop ((p # ps) ! i) = m \<and> (\<forall>j < i. m < predicted_iop ((p # ps) ! j))"
      proof (intro exI [of _ "Suc i"] conjI allI impI)
        show "Suc i < length (p # ps)" using i(1) by simp
        show "scanMin best bv (p # ps) = hour ((p # ps) ! Suc i)" using s i(2) by simp
        show "predicted_iop ((p # ps) ! Suc i) = m" using i(3) mm by simp
        fix j assume "j < Suc i"
        then show "m < predicted_iop ((p # ps) ! j)"
          using i(4) lt mm by (cases j) (simp_all add: vp_def)
      qed
      then show ?thesis unfolding Let_def m_def [symmetric] using ne mm by (simp only: if_False)
    qed
  qed
qed

lemma optimalHour_spec:
  assumes ne: "ps \<noteq> []" and idx: "\<forall>i < length ps. hour (ps ! i) = i"
  shows "optimalHour ps < length ps
         \<and> predicted_iop (ps ! optimalHour ps) = Min (predicted_iop ` set ps)
         \<and> (\<forall>j < optimalHour ps. Min (predicted_iop ` set ps) < predicted_iop (ps ! j))"
proof -
  from ne obtain p rest where ps: "ps = p # rest" by (cases ps) auto
  define m where "m = Min (predicted_iop ` set ps)"
  have m: "m = Min (insert (predicted_iop p) (predicted_iop ` set rest))" by (simp add: m_def ps)
  have h0: "hour p = 0" using idx by (auto simp: ps)
  have o: "optimalHour ps = scanMin (hour p) (predicted_iop p) rest" by (simp add: optimalHour_def ps)
  from scanMin_spec [of "predicted_iop p" rest "hour p"] have sp:
    "if predicted_iop p = m then scanMin (hour p) (predicted_iop p) rest = hour p
     else \<exists>i < length rest. scanMin (hour p) (predicted_iop p) rest = hour (rest ! i)
            \<and> predicted_iop (rest ! i) = m \<and> (\<forall>j < i. m < predicted_iop (rest ! j))"
    by (simp add: Let_def m)
  have "optimalHour ps < length ps \<and> predicted_iop (ps ! optimalHour ps) = m
        \<and> (\<forall>j < optimalHour ps. m < predicted_iop (ps ! j))"
  proof (cases "predicted_iop p = m")
    case True
    with sp o h0 have "optimalHour ps = 0" by simp
    then show ?thesis using True by (simp add: ps)
  next
    case False
    with sp obtain i where i: "i < length rest" "scanMin (hour p) (predicted_iop p) rest = hour (rest ! i)"
      "predicted_iop (rest ! i) = m" "\<forall>j < i. m < predicted_iop (rest ! j)" by auto
    have "hour (rest ! i) = Suc i" using idx i(1) by (auto simp: ps)
    then have h: "optimalHour ps = Suc i" using o i(2) by simp
    have "m \<le> predicted_iop p" unfolding m by simp
    with False have lt: "m < predicted_iop p" by simp
    have "\<forall>j < Suc i. m < predicted_iop (ps ! j)"
    proof (intro allI impI)
      fix j assume "j < Suc i"
      then show "m < predicted_iop (ps ! j)" using lt i(4) by (cases j) (simp_all add: ps)
    qed
    then show ?thesis using h i(1,3) by (simp add: ps)
  qed
  then show ?thesis unfolding m_def .
qed

lemma round1_err: "\<bar>round1 x - x\<bar> \<le> 1 / 20"
proof -
  have "of_int \<lfloor>x * 10 + 1/2\<rfloor> \<le> x * 10 + 1/2" "x * 10 + 1/2 < of_int \<lfloor>x * 10 + 1/2\<rfloor> + 1"
    by linarith+
  then show ?thesis unfolding round1_def abs_le_iff by (simp add: field_simps)
qed

lemma round1_idem: "round1 (round1 x) = round1 x"
  unfolding round1_def [of x] by (rule round1_tenth)

lemma predicted_values_rounded:
  assumes "v \<in> predicted_iop ` set (hourlyPredictions curve d)"
  shows "round1 v = v"
proof -
  from assms obtain h where "v = round1 (curve d h)"
    by (auto simp: hourlyPredictions_def predictHour_def Let_def simp del: upt_Suc)
  then show ?thesis by (simp add: round1_idem)
qed

lemma hourlyPredictions_index:
  "\<forall>i < length (hourlyPredictions curve d). hour (hourlyPredictions curve d ! i) = i"
  by (simp add: hourlyPredictions_length hourlyPredictions_nth predictHour_def Let_def)

lemma hourlyPredictions_nonempty: "hourlyPredictions curve d \<noteq> []"
  using hourlyPredictions_length [of curve d] by auto

text \<open>
  C8. In every forecast the peak is the maximum and the trough the minimum of the 24
  predicted values, the average is their mean up to the rounding to one decimal, and the
  optimal drop time is the formatted hour of the minimum, the earliest hour when several
  hours share the minimum.
\<close>

theorem circadian_analysis_correct:
  fixes curve fmt d
  defines "r \<equiv> computeForecast curve fmt d"
  defines "vs \<equiv> map predicted_iop (predictions r)"
  defines "h \<equiv> optimalHour (predictions r)"
  shows "peak_iop (circadian_analysis r) = Max (set vs)
         \<and> trough_iop (circadian_analysis r) = Min (set vs)
         \<and> \<bar>average_iop (circadian_analysis r) - sum_list vs / 24\<bar> \<le> 1 / 20
         \<and> optimal_drop_time r = fmt h
         \<and> h < 24
         \<and> hour (predictions r ! h) = h
         \<and> predicted_iop (predictions r ! h) = Min (set vs)
         \<and> (\<forall>j < h. Min (set vs) < predicted_iop (predictions r ! j))"
proof -
  define ps where "ps = hourlyPredictions curve d"
  have pr: "predictions r = ps" by (simp add: r_def computeForecast_def Let_def ps_def)
  have vs: "set vs = predicted_iop ` set ps" "length vs = 24"
    by (simp_all add: vs_def pr ps_def hourlyPredictions_length)
  have ne: "set vs \<noteq> {}" using vs(2) by auto
  have ca: "circadian_analysis r = circadianAnalysis ps"
    by (simp add: r_def computeForecast_def Let_def ps_def)
  have "Max (set vs) \<in> set vs" "Min (set vs) \<in> set vs" using ne by simp_all
  then have rd: "round1 (Max (set vs)) = Max (set vs)" "round1 (Min (set vs)) = Min (set vs)"
    using predicted_values_rounded [of _ curve d] unfolding vs(1) ps_def by blast+
  have vs': "map predicted_iop ps = vs" by (simp add: vs_def pr)
  have peak: "peak_iop (circadian_analysis r) = Max (set vs)"
    and trough: "trough_iop (circadian_analysis r) = Min (set vs)"
    and avg: "average_iop (circadian_analysis r) = round1 (sum_list vs / 24)"
    by (simp_all add: ca circadianAnalysis_def Let_def vs' rd vs(2))
  have odt: "optimal_drop_time r = fmt h"
    by (simp add: r_def h_def computeForecast_def Let_def)
  from optimalHour_spec [OF hourlyPredictions_nonempty hourlyPredictions_index, of curve d]
  have opt: "h < 24" "predicted_iop (ps ! h) = Min (set vs)"
    "\<forall>j < h. Min (set vs) < predicted_iop (ps ! j)"
    by (simp_all add: h_def pr ps_def vs(1) hourlyPredictions_length)
  have hh: "hour (ps ! h) = h"
    using hourlyPredictions_index [of curve d] opt(1) by (simp add: ps_def hourlyPredictions_length)
  show ?thesis
    using peak trough avg odt opt hh round1_err [of "sum_list vs / 24"] by (simp add: pr)
qed

theorem circadian_analysis_correct_witness:
  "optimalHour (predictions (computeForecast sampleCurve (\<lambda>_. ''15:00'') scenario)) = 15
   \<and> (3::nat) < 15
   \<and> Min (set (map predicted_iop (predictions (computeForecast sampleCurve (\<lambda>_. ''15:00'') scenario))))
       < predicted_iop (predictions (computeForecast sampleCurve (\<lambda>_. ''15:00'') scenario) ! 3)
   \<and> predicted_iop (predictions (computeForecast sampleCurve (\<lambda>_. ''15:00'') scenario) ! 15)
       = Min (set (map predicted_iop (predictions (computeForecast sampleCurve (\<lambda>_. ''15:00'') scenario))))"
proof -
  have pr: "predictions (computeForecast sampleCurve (\<lambda>_. ''15:00'') scenario)
      = hourlyPredictions sampleCurve scenario"
    by (simp add: computeForecast_def Let_def)
  have h: "optimalHour (hourlyPredictions sampleCurve scenario) = 15"
    by code_simp
  from circadian_analysis_correct [of sampleCurve "\<lambda>_. ''15:00''" scenario]
  show ?thesis unfolding pr h by simp
qed


end
